theory Spec2Isabelle
  imports Complex_Main "HOL-Library.Word" "HOL-Library.Log_Nat"
begin

section \<open>Numbers\<close>

text \<open>
  A JavaScript number is an IEEE 754 double: a finite value, one of the two infinities,
  or NaN. The finite values are carried as reals, and every arithmetic operation rounds
  its exact result to the nearest double, ties to the even significand. The two zeros
  are one number of the model; a zero divisor is read as the positive zero.
\<close>

datatype jsnum = Num real | PosInf | NegInf | NaN

text \<open>Rounding to the nearest integer, ties to even.\<close>

definition rne :: "real \<Rightarrow> int" where
  "rne y =
     (let n = \<lfloor>y\<rfloor>; d = y - of_int n
      in if d < 1 / 2 then n else if 1 / 2 < d then n + 1 else if even n then n else n + 1)"

text \<open>The exponent \<open>e\<close> with \<open>2 ^ e \<le> x < 2 ^ (e + 1)\<close>, for a positive \<open>x\<close>.\<close>

definition floor_log2 :: "real \<Rightarrow> int" where
  "floor_log2 x =
     (if 1 \<le> x then int (floorlog 2 (nat \<lfloor>x\<rfloor>)) - 1
      else - int (floorlog 2 (nat (\<lceil>1 / x\<rceil> - 1))))"

text \<open>
  The exponent of the binade of a double; below \<open>2 ^ - 1022\<close> the subnormal spacing
  applies. A double has 53 significant bits, so the spacing in the binade \<open>e\<close> is
  \<open>2 ^ (e - 52)\<close>.
\<close>

definition binade :: "real \<Rightarrow> int" where
  "binade x = max (floor_log2 \<bar>x\<bar>) (- 1022)"

definition round64 :: "real \<Rightarrow> jsnum" where
  "round64 x =
     (if x = 0 then Num 0
      else let q = 2 powi (binade x - 52);
               y = of_int (rne (x / q)) * q
           in if 2 powi 1024 \<le> \<bar>y\<bar> then (if 0 < x then PosInf else NegInf) else Num y)"

text \<open>A decimal literal of the source denotes the nearest double.\<close>

definition js_lit :: "real \<Rightarrow> jsnum" where
  "js_lit x = round64 x"

text \<open>
  Conversion of a finite number to an integer as the typed-array store and \<open>>>>\<close> do
  it: the fraction is dropped, towards zero.
\<close>

definition js_trunc :: "real \<Rightarrow> int" where
  "js_trunc x = (if 0 \<le> x then \<lfloor>x\<rfloor> else \<lceil>x\<rceil>)"

definition sgn_of :: "jsnum \<Rightarrow> real" where
  "sgn_of a = (case a of Num x \<Rightarrow> sgn x | PosInf \<Rightarrow> 1 | NegInf \<Rightarrow> - 1 | NaN \<Rightarrow> 0)"

definition inf_of :: "real \<Rightarrow> jsnum" where
  "inf_of s = (if 0 < s then PosInf else if s < 0 then NegInf else NaN)"

definition fneg :: "jsnum \<Rightarrow> jsnum" where
  "fneg a = (case a of Num x \<Rightarrow> Num (- x) | PosInf \<Rightarrow> NegInf | NegInf \<Rightarrow> PosInf | NaN \<Rightarrow> NaN)"

definition fadd :: "jsnum \<Rightarrow> jsnum \<Rightarrow> jsnum" where
  "fadd a b =
     (case (a, b) of
        (Num x, Num y) \<Rightarrow> round64 (x + y)
      | (NaN, _) \<Rightarrow> NaN
      | (_, NaN) \<Rightarrow> NaN
      | (PosInf, NegInf) \<Rightarrow> NaN
      | (NegInf, PosInf) \<Rightarrow> NaN
      | (PosInf, _) \<Rightarrow> PosInf
      | (NegInf, _) \<Rightarrow> NegInf
      | (_, PosInf) \<Rightarrow> PosInf
      | (_, NegInf) \<Rightarrow> NegInf)"

definition fsub :: "jsnum \<Rightarrow> jsnum \<Rightarrow> jsnum" where
  "fsub a b = fadd a (fneg b)"

definition fmul :: "jsnum \<Rightarrow> jsnum \<Rightarrow> jsnum" where
  "fmul a b =
     (case (a, b) of
        (Num x, Num y) \<Rightarrow> round64 (x * y)
      | (NaN, _) \<Rightarrow> NaN
      | (_, NaN) \<Rightarrow> NaN
      | _ \<Rightarrow> inf_of (sgn_of a * sgn_of b))"

definition fdiv :: "jsnum \<Rightarrow> jsnum \<Rightarrow> jsnum" where
  "fdiv a b =
     (case (a, b) of
        (Num x, Num y) \<Rightarrow> if y = 0 then inf_of (sgn x) else round64 (x / y)
      | (NaN, _) \<Rightarrow> NaN
      | (_, NaN) \<Rightarrow> NaN
      | (Num x, _) \<Rightarrow> Num 0
      | (_, Num y) \<Rightarrow> inf_of (sgn_of a * (if y < 0 then - 1 else 1))
      | _ \<Rightarrow> NaN)"

text \<open>The remainder operator \<open>%\<close>: exact, with the sign of the dividend.\<close>

definition frem :: "jsnum \<Rightarrow> jsnum \<Rightarrow> jsnum" where
  "frem a b =
     (case (a, b) of
        (Num x, Num y) \<Rightarrow> if y = 0 then NaN else Num (x - y * of_int (js_trunc (x / y)))
      | (Num x, PosInf) \<Rightarrow> Num x
      | (Num x, NegInf) \<Rightarrow> Num x
      | _ \<Rightarrow> NaN)"

text \<open>Comparisons; every comparison with NaN is false.\<close>

definition js_lt :: "jsnum \<Rightarrow> jsnum \<Rightarrow> bool" where
  "js_lt a b =
     (case (a, b) of
        (Num x, Num y) \<Rightarrow> x < y
      | (NaN, _) \<Rightarrow> False
      | (_, NaN) \<Rightarrow> False
      | (NegInf, NegInf) \<Rightarrow> False
      | (NegInf, _) \<Rightarrow> True
      | (PosInf, _) \<Rightarrow> False
      | (_, PosInf) \<Rightarrow> True
      | (_, NegInf) \<Rightarrow> False)"

definition js_le :: "jsnum \<Rightarrow> jsnum \<Rightarrow> bool" where
  "js_le a b = (a \<noteq> NaN \<and> b \<noteq> NaN \<and> (a = b \<or> js_lt a b))"

definition js_gt :: "jsnum \<Rightarrow> jsnum \<Rightarrow> bool" where
  "js_gt a b = js_lt b a"

definition js_ge :: "jsnum \<Rightarrow> jsnum \<Rightarrow> bool" where
  "js_ge a b = js_le b a"

definition Math_min :: "jsnum \<Rightarrow> jsnum \<Rightarrow> jsnum" where
  "Math_min a b = (if a = NaN \<or> b = NaN then NaN else if js_lt a b then a else b)"

definition Math_max :: "jsnum \<Rightarrow> jsnum \<Rightarrow> jsnum" where
  "Math_max a b = (if a = NaN \<or> b = NaN then NaN else if js_lt a b then b else a)"

definition Math_floor :: "jsnum \<Rightarrow> jsnum" where
  "Math_floor a = (case a of Num x \<Rightarrow> Num (of_int \<lfloor>x\<rfloor>) | _ \<Rightarrow> a)"

definition Math_sign :: "jsnum \<Rightarrow> jsnum" where
  "Math_sign a =
     (case a of Num x \<Rightarrow> Num (sgn x) | PosInf \<Rightarrow> Num 1 | NegInf \<Rightarrow> Num (- 1) | NaN \<Rightarrow> NaN)"

text \<open>\<open>Math.PI\<close> is the double nearest to \<open>\<pi>\<close>.\<close>

definition Math_PI :: jsnum where
  "Math_PI = Num (884279719003555 / 281474976710656)"

text \<open>
  \<open>Math.sin\<close>, \<open>Math.asin\<close> and \<open>Math.exp\<close> return approximations that the language
  leaves to the platform: the approximations are parameters of the model. The language
  fixes the results at the special arguments: NaN for NaN, \<open>sin 0 = 0\<close>, \<open>sin\<close> of an
  infinity is NaN, \<open>asin 0 = 0\<close>, \<open>asin\<close> outside \<open>[-1, 1]\<close> is NaN, \<open>exp 0 = 1\<close>,
  \<open>exp Infinity = Infinity\<close> and \<open>exp (-Infinity) = 0\<close>.
\<close>

record mathlib =
  sin_approx :: "real \<Rightarrow> jsnum"
  asin_approx :: "real \<Rightarrow> jsnum"
  exp_approx :: "real \<Rightarrow> jsnum"

definition Math_sin :: "mathlib \<Rightarrow> jsnum \<Rightarrow> jsnum" where
  "Math_sin m a = (case a of Num x \<Rightarrow> if x = 0 then Num 0 else sin_approx m x | _ \<Rightarrow> NaN)"

definition Math_asin :: "mathlib \<Rightarrow> jsnum \<Rightarrow> jsnum" where
  "Math_asin m a =
     (case a of
        Num x \<Rightarrow> if x = 0 then Num 0 else if x < - 1 \<or> 1 < x then NaN else asin_approx m x
      | _ \<Rightarrow> NaN)"

definition Math_exp :: "mathlib \<Rightarrow> jsnum \<Rightarrow> jsnum" where
  "Math_exp m a =
     (case a of
        Num x \<Rightarrow> if x = 0 then Num 1 else exp_approx m x
      | PosInf \<Rightarrow> PosInf
      | NegInf \<Rightarrow> Num 0
      | NaN \<Rightarrow> NaN)"

text \<open>
  \<open>Math.random\<close>: the random source is the stream of the numbers the calls return, and
  a call takes the head of the stream.
\<close>

type_synonym rng = "nat \<Rightarrow> real"

definition Math_random :: "rng \<Rightarrow> jsnum \<times> rng" where
  "Math_random g = (Num (g 0), \<lambda>k. g (Suc k))"

text \<open>\<open>buf[i] = v\<close> on a byte array keeps the truncated value modulo 256; NaN and the
  infinities give 0.\<close>

definition toUint8 :: "jsnum \<Rightarrow> 8 word" where
  "toUint8 v = (case v of Num x \<Rightarrow> word_of_int (js_trunc x) | _ \<Rightarrow> 0)"

text \<open>\<open>v >>> 8\<close>: the truncated value modulo \<open>2 ^ 32\<close>, shifted right by eight bits.\<close>

definition ushr8 :: "jsnum \<Rightarrow> jsnum" where
  "ushr8 v =
     (case v of Num x \<Rightarrow> Num (of_int ((js_trunc x mod 2 ^ 32) div 2 ^ 8)) | _ \<Rightarrow> Num 0)"

section \<open>The mappers from a contribution count\<close>





text \<open>\<open>getNoteDurationFromContribution\<close>: the length of a note in seconds.\<close>

definition getNoteDurationFromContribution :: "real \<Rightarrow> real \<Rightarrow> real" where
  "getNoteDurationFromContribution count tempo =
     (let beatDuration = 60 / tempo
      in if count \<ge> 50 then beatDuration * 4
         else if count \<ge> 25 then beatDuration * 2
         else if count \<ge> 10 then beatDuration
         else if count \<ge> 5 then beatDuration / 2
         else beatDuration / 4)"


section \<open>The mappers in double arithmetic\<close>

text \<open>The same four functions, every operation rounded as the program computes it.\<close>

definition minFreq_f64 :: jsnum where
  "minFreq_f64 = js_lit 261.63"

definition maxFreq_f64 :: jsnum where
  "maxFreq_f64 = js_lit 1046.5"

definition getFrequencyFromContribution_f64 :: "jsnum \<Rightarrow> jsnum" where
  "getFrequencyFromContribution_f64 count =
     (if js_le count (Num 0) then minFreq_f64
      else let freq = fadd (fmul (fdiv count (Num 100)) (fsub maxFreq_f64 minFreq_f64))
                        minFreq_f64
           in Math_min freq maxFreq_f64)"

definition getFrequencyFromContribution_alt_f64 :: "jsnum \<Rightarrow> jsnum" where
  "getFrequencyFromContribution_alt_f64 count =
     (let freq = (if js_gt count (Num 0)
                  then fadd (fmul (fdiv count (Num 100)) (fsub maxFreq_f64 minFreq_f64))
                         minFreq_f64
                  else minFreq_f64)
      in Math_min freq maxFreq_f64)"

definition getNoteDurationFromContribution_f64 :: "jsnum \<Rightarrow> jsnum \<Rightarrow> jsnum" where
  "getNoteDurationFromContribution_f64 count tempo =
     (let beatDuration = fdiv (Num 60) tempo
      in if js_ge count (Num 50) then fmul beatDuration (Num 4)
         else if js_ge count (Num 25) then fmul beatDuration (Num 2)
         else if js_ge count (Num 10) then beatDuration
         else if js_ge count (Num 5) then fdiv beatDuration (Num 2)
         else fdiv beatDuration (Num 4))"

definition getChordFromContribution_f64 :: "jsnum \<Rightarrow> jsnum \<Rightarrow> jsnum list option" where
  "getChordFromContribution_f64 count baseFreq =
     (if js_ge count (Num 50) then
        Some [baseFreq, fmul baseFreq (fdiv (Num 5) (Num 4)), fmul baseFreq (fdiv (Num 3) (Num 2))]
      else if js_ge count (Num 25) then
        Some [baseFreq, fmul baseFreq (fdiv (Num 6) (Num 5)), fmul baseFreq (fdiv (Num 3) (Num 2))]
      else if js_ge count (Num 10) then
        Some [baseFreq, fmul baseFreq (fdiv (Num 3) (Num 2))]
      else None)"

section \<open>Buffers and arrays\<close>

text \<open>
  The operations of the runtime's \<open>Buffer\<close> that the service calls. A write of an
  integer checks the value against the range of the field and the offset against the
  buffer, and throws \<open>ERR_OUT_OF_RANGE\<close> otherwise; it then stores the value byte by
  byte, lowest byte first. NaN passes the range check, since it compares false. An
  array holds at most \<open>2 ^ 32 - 1\<close> elements: \<open>push\<close> on a full array throws.
\<close>

type_synonym u8 = "8 word"
type_synonym buffer = "u8 list"

datatype js_error = ERR_OUT_OF_RANGE | ERR_INVALID_ARRAY_LENGTH

definition max_array_length :: nat where
  "max_array_length = 4294967295"

definition bind_err :: "js_error + 'a \<Rightarrow> ('a \<Rightarrow> js_error + 'b) \<Rightarrow> js_error + 'b" where
  "bind_err r f = (case r of Inl e \<Rightarrow> Inl e | Inr x \<Rightarrow> f x)"

fun forEach_err :: "('a \<Rightarrow> 's \<Rightarrow> js_error + 's) \<Rightarrow> 'a list \<Rightarrow> 's \<Rightarrow> js_error + 's" where
  "forEach_err f [] st = Inr st"
| "forEach_err f (x # xs) st =
     (case f x st of Inl e \<Rightarrow> Inl e | Inr st' \<Rightarrow> forEach_err f xs st')"

definition Buffer_alloc :: "nat \<Rightarrow> buffer" where
  "Buffer_alloc n = replicate n 0"

definition Buffer_concat :: "buffer list \<Rightarrow> buffer" where
  "Buffer_concat bufs = concat bufs"

definition Buffer_write :: "string \<Rightarrow> nat \<Rightarrow> buffer \<Rightarrow> js_error + buffer" where
  "Buffer_write str offset buf =
     (if length buf < offset then Inl ERR_OUT_OF_RANGE
      else Inr (fold (\<lambda>k b. b[offset + k := of_char (str ! k)]) [0..<length str] buf))"

definition writeUInt32LE :: "jsnum \<Rightarrow> nat \<Rightarrow> buffer \<Rightarrow> js_error + buffer" where
  "writeUInt32LE v offset buf =
     (if js_gt v (Num 4294967295) \<or> js_lt v (Num 0) then Inl ERR_OUT_OF_RANGE
      else if length buf < offset + 4 then Inl ERR_OUT_OF_RANGE
      else Inr (buf[offset := toUint8 v,
                    offset + 1 := toUint8 (ushr8 v),
                    offset + 2 := toUint8 (ushr8 (ushr8 v)),
                    offset + 3 := toUint8 (ushr8 (ushr8 (ushr8 v)))]))"

definition writeUInt16LE :: "jsnum \<Rightarrow> nat \<Rightarrow> buffer \<Rightarrow> js_error + buffer" where
  "writeUInt16LE v offset buf =
     (if js_gt v (Num 65535) \<or> js_lt v (Num 0) then Inl ERR_OUT_OF_RANGE
      else if length buf < offset + 2 then Inl ERR_OUT_OF_RANGE
      else Inr (buf[offset := toUint8 v, offset + 1 := toUint8 (ushr8 v)]))"

definition writeInt16LE :: "jsnum \<Rightarrow> nat \<Rightarrow> buffer \<Rightarrow> js_error + buffer" where
  "writeInt16LE v offset buf =
     (if js_gt v (Num 32767) \<or> js_lt v (Num (- 32768)) then Inl ERR_OUT_OF_RANGE
      else if length buf < offset + 2 then Inl ERR_OUT_OF_RANGE
      else Inr (buf[offset := toUint8 v, offset + 1 := toUint8 (ushr8 v)]))"

section \<open>The WAV container\<close>

text \<open>\<open>getWavHeader\<close>, the same statements in both service files.\<close>

definition getWavHeader :: "jsnum \<Rightarrow> jsnum \<Rightarrow> js_error + buffer" where
  "getWavHeader samplesLength sampleRate =
     (let blockAlign = Num 2;
          byteRate = fmul sampleRate blockAlign;
          dataSize = fmul samplesLength blockAlign;
          buffer = Buffer_alloc 44
      in bind_err (Buffer_write ''RIFF'' 0 buffer) (\<lambda>buffer.
         bind_err (writeUInt32LE (fadd (Num 36) dataSize) 4 buffer) (\<lambda>buffer.
         bind_err (Buffer_write ''WAVE'' 8 buffer) (\<lambda>buffer.
         bind_err (Buffer_write ''fmt '' 12 buffer) (\<lambda>buffer.
         bind_err (writeUInt32LE (Num 16) 16 buffer) (\<lambda>buffer.
         bind_err (writeUInt16LE (Num 1) 20 buffer) (\<lambda>buffer.
         bind_err (writeUInt16LE (Num 1) 22 buffer) (\<lambda>buffer.
         bind_err (writeUInt32LE sampleRate 24 buffer) (\<lambda>buffer.
         bind_err (writeUInt32LE byteRate 28 buffer) (\<lambda>buffer.
         bind_err (writeUInt16LE blockAlign 32 buffer) (\<lambda>buffer.
         bind_err (writeUInt16LE (Num 16) 34 buffer) (\<lambda>buffer.
         bind_err (Buffer_write ''data'' 36 buffer) (\<lambda>buffer.
         bind_err (writeUInt32LE dataSize 40 buffer) (\<lambda>buffer.
         Inr buffer))))))))))))))"

text \<open>
  The quantising loop of \<open>createWavData\<close>: sample \<open>i\<close> goes through
  \<open>Math.max(-1, Math.min(1, s))\<close>, is scaled by 32767 and written as a 16-bit integer at
  offset \<open>2 * i\<close>.
\<close>

function quantize_loop :: "jsnum list \<Rightarrow> nat \<Rightarrow> buffer \<Rightarrow> js_error + buffer" where
  "quantize_loop samples i buffer =
     (if i < length samples then
        (let s = Math_max (Num (- 1)) (Math_min (Num 1) (samples ! i))
         in case writeInt16LE (fmul s (Num 32767)) (i * 2) buffer of
              Inl e \<Rightarrow> Inl e
            | Inr buffer' \<Rightarrow> quantize_loop samples (Suc i) buffer')
      else Inr buffer)"
  by pat_completeness auto
termination
  by (relation "measure (\<lambda>(samples, i, buffer). length samples - i)") auto

declare quantize_loop.simps [simp del]

definition pcm_data :: "jsnum list \<Rightarrow> js_error + buffer" where
  "pcm_data samples = quantize_loop samples 0 (Buffer_alloc (length samples * 2))"

definition createWavData :: "jsnum list \<Rightarrow> js_error + buffer" where
  "createWavData samples =
     bind_err (pcm_data samples) (\<lambda>buffer.
     bind_err (getWavHeader (Num (real (length samples))) (Num 44100)) (\<lambda>wavHeader.
     Inr (Buffer_concat [wavHeader, buffer])))"

text \<open>
  Readers of the fields, as a WAV decoder reads them; they are used to state what the
  header holds.
\<close>

definition readUInt32LE :: "buffer \<Rightarrow> nat \<Rightarrow> nat" where
  "readUInt32LE buf offset =
     unat (buf ! offset) + unat (buf ! (offset + 1)) * 2 ^ 8
     + unat (buf ! (offset + 2)) * 2 ^ 16 + unat (buf ! (offset + 3)) * 2 ^ 24"

definition readUInt16LE :: "buffer \<Rightarrow> nat \<Rightarrow> nat" where
  "readUInt16LE buf offset = unat (buf ! offset) + unat (buf ! (offset + 1)) * 2 ^ 8"


text \<open>
  The layout the specification fixes, for comparison with what the writers produce:
  the character codes of a tag, a little-endian unsigned field of four or two bytes, a
  little-endian two's complement field of two bytes, and the 44-byte header as the table
  of the specification lists it, for a sample rate and a data size.
\<close>

definition ascii :: "string \<Rightarrow> buffer" where
  "ascii str = map of_char str"

definition le32 :: "nat \<Rightarrow> buffer" where
  "le32 k = [of_nat k, of_nat (k div 2 ^ 8), of_nat (k div 2 ^ 16), of_nat (k div 2 ^ 24)]"

definition le16 :: "nat \<Rightarrow> buffer" where
  "le16 k = [of_nat k, of_nat (k div 2 ^ 8)]"

definition le16s :: "int \<Rightarrow> buffer" where
  "le16s z = [word_of_int z, word_of_int (z div 2 ^ 8)]"

definition canonical_header :: "nat \<Rightarrow> nat \<Rightarrow> buffer" where
  "canonical_header sampleRateHz dataSize =
     ascii ''RIFF'' @ le32 (36 + dataSize) @ ascii ''WAVE'' @ ascii ''fmt '' @ le32 16
     @ le16 1 @ le16 1 @ le32 sampleRateHz @ le32 (sampleRateHz * 2) @ le16 2 @ le16 16
     @ ascii ''data'' @ le32 dataSize"

text \<open>
  The 16-bit value of one sample: the sample after \<open>Math.max(-1, Math.min(1, s))\<close>,
  times 32767 in double arithmetic, without its fraction; 0 when that is not a finite
  number.
\<close>

definition quantize :: "jsnum \<Rightarrow> int" where
  "quantize x =
     (case fmul (Math_max (Num (- 1)) (Math_min (Num 1) x)) (Num 32767) of
        Num y \<Rightarrow> js_trunc y
      | _ \<Rightarrow> 0)"

section \<open>Rendering, simple mode\<close>

record contributionDay =
  date :: string
  contributionCount :: int

text \<open>The inner \<open>for\<close> loop of \<open>createSamplesFromContributions\<close> for one frequency.\<close>

function simple_loop ::
  "mathlib \<Rightarrow> jsnum \<Rightarrow> jsnum \<Rightarrow> jsnum \<Rightarrow> nat \<Rightarrow> jsnum list \<Rightarrow> js_error + jsnum list" where
  "simple_loop m freq sampleRate sampleCount i samples =
     (if js_lt (Num (real i)) sampleCount then
        (let sample =
               fmul (Math_sin m (fmul (fmul (fmul (Num 2) Math_PI) freq)
                                   (fdiv (Num (real i)) sampleRate)))
                 (Num 0.5)
         in if max_array_length \<le> length samples then Inl ERR_INVALID_ARRAY_LENGTH
            else simple_loop m freq sampleRate sampleCount (Suc i) (samples @ [sample]))
      else Inr samples)"
  by pat_completeness auto
termination
  by (relation "measure (\<lambda>(m, freq, sampleRate, sampleCount, i, samples).
        max_array_length - length samples)") auto

declare simple_loop.simps [simp del]

definition createSamplesFromContributions ::
  "mathlib \<Rightarrow> contributionDay list \<Rightarrow> js_error + jsnum list" where
  "createSamplesFromContributions m contributionDays =
     (let frequencies =
            map (\<lambda>day. getFrequencyFromContribution_f64 (Num (of_int (contributionCount day))))
              contributionDays;
          sampleRate = Num 44100;
          duration = js_lit 0.1
      in forEach_err (\<lambda>freq samples.
                 let sampleCount = fmul sampleRate duration
                 in simple_loop m freq sampleRate sampleCount 0 samples)
           frequencies [])"

text \<open>
  The entry points of \<open>src/github/github.service.ts\<close>. The remote query is a parameter
  (\<open>None\<close> for \<open>null\<close>); the outcome records the status sent, or the WAV file handed
  to the transcoder with the disposition flag, or the error thrown.
\<close>

datatype outcome = Status404 | Status500 | Thrown js_error | Transcoded string buffer bool

definition generateAndSendMusic ::
  "mathlib \<Rightarrow> (string \<Rightarrow> contributionDay list option) \<Rightarrow> string \<Rightarrow> bool \<Rightarrow> outcome" where
  "generateAndSendMusic m fetchContributionDays username isStream =
     (case fetchContributionDays username of
        None \<Rightarrow> Status404
      | Some contributionDays \<Rightarrow>
          (case createSamplesFromContributions m contributionDays of
             Inl e \<Rightarrow> Thrown e
           | Inr samples \<Rightarrow>
               (case createWavData samples of
                  Inl e \<Rightarrow> Thrown e
                | Inr wavData \<Rightarrow> Transcoded (username @ ''.wav'') wavData isStream)))"

definition generateCustomMusic ::
  "mathlib \<Rightarrow> (string \<Rightarrow> contributionDay list option) \<Rightarrow> string \<Rightarrow> jsnum \<Rightarrow> jsnum \<Rightarrow> jsnum
     \<Rightarrow> outcome" where
  "generateCustomMusic m fetchContributionDays username instrumentId tempo volume =
     generateAndSendMusic m fetchContributionDays username False"

section \<open>Rendering, custom mode\<close>

text \<open>The second service file renders with an instrument, a tempo and a volume.\<close>

type_synonym waveform = "jsnum \<Rightarrow> jsnum \<Rightarrow> rng \<Rightarrow> jsnum \<times> rng"

definition getInstrumentWaveform :: "mathlib \<Rightarrow> jsnum \<Rightarrow> waveform" where
  "getInstrumentWaveform m instrumentId =
     (if instrumentId = Num 1 then
        (\<lambda>freq t g. (Math_sin m (fmul (fmul (fmul (Num 2) Math_PI) freq) t), g))
      else if instrumentId = Num 2 then
        (\<lambda>freq t g.
           (fdiv (fadd (Math_sin m (fmul (fmul (fmul (Num 2) Math_PI) freq) t))
                    (fmul (Num 0.5)
                       (Math_sin m (fmul (fmul (fmul (fmul (Num 2) Math_PI) freq) (Num 2)) t))))
              (Num 1.5), g))
      else if instrumentId = Num 3 then
        (\<lambda>freq t g.
           let period = fdiv (Num 1) freq
           in (fmul (fdiv (Num 2) Math_PI)
                 (Math_asin m (Math_sin m (fmul (fmul (fmul (Num 2) Math_PI) freq) t))), g))
      else if instrumentId = Num 4 then
        (\<lambda>freq t g.
           let period = fdiv (Num 1) freq
           in (fsub (fdiv (fmul (Num 2) (frem t period)) period) (Num 1), g))
      else if instrumentId = Num 5 then
        (\<lambda>freq t g. (Math_sign (Math_sin m (fmul (fmul (fmul (Num 2) Math_PI) freq) t)), g))
      else if instrumentId = Num 6 then
        (\<lambda>freq t g.
           let (r, g') = Math_random g
           in (fmul (fsub (fmul r (Num 2)) (Num 1)) (Math_exp m (fmul (fneg t) (Num 5))), g'))
      else if instrumentId = Num 7 then
        (\<lambda>freq t g.
           (fmul (Math_sin m (fmul (fmul (fmul (Num 2) Math_PI) freq) t))
              (Math_sin m (fmul (fmul (fmul (fmul (Num 2) Math_PI) freq) t) (Num 0.5))), g))
      else if instrumentId = Num 8 then
        (\<lambda>freq t g.
           (Math_sin m
              (fadd (fmul (fmul (fmul (Num 2) Math_PI) freq) t)
                 (fmul (Num 5) (Math_sin m (fmul (fmul (fmul (Num 2) Math_PI) (Num 5)) t)))), g))
      else (\<lambda>freq t g. (Math_sin m (fmul (fmul (fmul (Num 2) Math_PI) freq) t), g)))"

record music_note =
  note_freq :: jsnum
  note_noteDuration :: jsnum
  note_chord :: "jsnum list option"

text \<open>\<open>chord.forEach\<close>: the waveform of each pitch is added to the sample.\<close>

definition chord_forEach :: "waveform \<Rightarrow> jsnum list \<Rightarrow> jsnum \<Rightarrow> jsnum \<times> rng \<Rightarrow> jsnum \<times> rng" where
  "chord_forEach instrumentWaveform chord t st =
     fold (\<lambda>chordFreq (sample, g).
             let (v, g') = instrumentWaveform chordFreq t g in (fadd sample v, g'))
       chord st"

text \<open>The body of the sample loop: one sample at local time \<open>t\<close>.\<close>

definition render_sample :: "waveform \<Rightarrow> music_note \<Rightarrow> jsnum \<Rightarrow> jsnum \<Rightarrow> rng \<Rightarrow> jsnum \<times> rng" where
  "render_sample instrumentWaveform n volume t g =
     (let (sample, g') =
            (case note_chord n of
               Some chord \<Rightarrow>
                 (let (sample, g') = chord_forEach instrumentWaveform chord t (Num 0, g)
                  in (fdiv sample (Num (real (length chord))), g'))
             | None \<Rightarrow> instrumentWaveform (note_freq n) t g)
      in (fmul sample volume, g'))"

function note_loop ::
  "waveform \<Rightarrow> music_note \<Rightarrow> jsnum \<Rightarrow> jsnum \<Rightarrow> jsnum \<Rightarrow> nat \<Rightarrow> jsnum list \<times> rng
     \<Rightarrow> js_error + jsnum list \<times> rng" where
  "note_loop instrumentWaveform n volume sampleRate sampleCount i (samples, g) =
     (if js_lt (Num (real i)) sampleCount then
        (let t = fdiv (Num (real i)) sampleRate;
             (sample, g') = render_sample instrumentWaveform n volume t g
         in if max_array_length \<le> length samples then Inl ERR_INVALID_ARRAY_LENGTH
            else note_loop instrumentWaveform n volume sampleRate sampleCount (Suc i)
                   (samples @ [sample], g'))
      else Inr (samples, g))"
  by pat_completeness auto
termination
  by (relation "measure (\<lambda>(w, n, volume, sampleRate, sampleCount, i, samples, g).
        max_array_length - length samples)") auto

declare note_loop.simps [simp del]

definition note_of_day :: "jsnum \<Rightarrow> contributionDay \<Rightarrow> music_note" where
  "note_of_day tempo day =
     (let count = Num (of_int (contributionCount day));
          freq = getFrequencyFromContribution_alt_f64 count;
          noteDuration = getNoteDurationFromContribution_f64 count tempo;
          chord = getChordFromContribution_f64 count freq
      in \<lparr>note_freq = freq, note_noteDuration = noteDuration, note_chord = chord\<rparr>)"

definition customSamples ::
  "mathlib \<Rightarrow> rng \<Rightarrow> contributionDay list \<Rightarrow> jsnum \<Rightarrow> jsnum \<Rightarrow> jsnum
     \<Rightarrow> js_error + jsnum list \<times> rng" where
  "customSamples m g contributionDays instrumentId tempo volume =
     (let frequenciesAndDurations = map (note_of_day tempo) contributionDays;
          sampleRate = Num 44100
      in forEach_err (\<lambda>n st.
                 let sampleCount = Math_floor (fmul sampleRate (note_noteDuration n));
                     instrumentWaveform = getInstrumentWaveform m instrumentId
                 in note_loop instrumentWaveform n volume sampleRate sampleCount 0 st)
           frequenciesAndDurations ([], g))"

text \<open>
  \<open>generateCustomMusic\<close> of the second service file: the defaults of tempo and volume
  (\<open>None\<close> for \<open>undefined\<close>), the 404 for missing or empty weeks, the rendering, and the
  quantising and header statements, which are those of \<open>createWavData\<close>. An error thrown
  inside is caught and answered with status 500.
\<close>

definition generateCustomMusic_alt ::
  "mathlib \<Rightarrow> rng \<Rightarrow> (string \<Rightarrow> contributionDay list list option) \<Rightarrow> string \<Rightarrow> jsnum
     \<Rightarrow> jsnum option \<Rightarrow> jsnum option \<Rightarrow> outcome" where
  "generateCustomMusic_alt m g fetchWeeks username instrumentId tempo volume =
     (let tempo = (case tempo of
                     None \<Rightarrow> Num 120
                   | Some x \<Rightarrow> if x = Num 0 \<or> x = NaN then Num 120 else x);
          volume = (case volume of None \<Rightarrow> Num 0.5 | Some v \<Rightarrow> v)
      in case fetchWeeks username of
           None \<Rightarrow> Status404
         | Some weeks \<Rightarrow>
             if length weeks = 0 then Status404
             else
               (let contributionDays = concat weeks
                in case customSamples m g contributionDays instrumentId tempo volume of
                     Inl e \<Rightarrow> Status500
                   | Inr (samples, g') \<Rightarrow>
                       (case createWavData samples of
                          Inl e \<Rightarrow> Status500
                        | Inr wavData \<Rightarrow>
                            Transcoded (username @ ''-custom.wav'') wavData False)))"

text \<open>
  The values of the waveform at the pitches of a chord, in the order of the pitches, each
  evaluation continuing the random stream of the one before.
\<close>

fun chord_values :: "waveform \<Rightarrow> jsnum list \<Rightarrow> jsnum \<Rightarrow> rng \<Rightarrow> jsnum list \<times> rng" where
  "chord_values w [] t g = ([], g)"
| "chord_values w (p # ps) t g =
     (let (v, g') = w p t g; (vs, g'') = chord_values w ps t g' in (v # vs, g''))"

text \<open>
  The rendering the specification describes, for comparison with the loops: the block
  of one note holds one sample per index below the count, at local time
  \<open>i / sampleRate\<close>, and the blocks follow each other in the order of the notes. Each
  sample continues the random stream where the sample before left it. The count of a
  note is the number of indices below its \<open>sampleCount\<close>.
\<close>

fun spec_block ::
  "waveform \<Rightarrow> music_note \<Rightarrow> jsnum \<Rightarrow> jsnum \<Rightarrow> nat \<Rightarrow> nat \<Rightarrow> rng \<Rightarrow> jsnum list \<times> rng" where
  "spec_block w n volume sampleRate i 0 g = ([], g)"
| "spec_block w n volume sampleRate i (Suc k) g =
     (let (sample, g') = render_sample w n volume (fdiv (Num (real i)) sampleRate) g;
          (rest, g'') = spec_block w n volume sampleRate (Suc i) k g'
      in (sample # rest, g''))"

fun spec_render ::
  "waveform \<Rightarrow> jsnum \<Rightarrow> jsnum \<Rightarrow> (music_note \<Rightarrow> nat) \<Rightarrow> music_note list \<Rightarrow> rng
     \<Rightarrow> jsnum list \<times> rng" where
  "spec_render w volume sampleRate cnt [] g = ([], g)"
| "spec_render w volume sampleRate cnt (n # ns) g =
     (let (block, g') = spec_block w n volume sampleRate 0 (cnt n) g;
          (rest, g'') = spec_render w volume sampleRate cnt ns g'
      in (block @ rest, g''))"

definition indices_below :: "jsnum \<Rightarrow> nat" where
  "indices_below c = (case c of Num x \<Rightarrow> nat \<lceil>x\<rceil> | _ \<Rightarrow> 0)"

definition day_sample_count :: "jsnum \<Rightarrow> contributionDay \<Rightarrow> jsnum" where
  "day_sample_count tempo day =
     Math_floor (fmul (Num 44100)
       (getNoteDurationFromContribution_f64 (Num (of_int (contributionCount day))) tempo))"

section \<open>Properties of the mappers\<close>








section \<open>Rounding to a double\<close>

lemma floor_log2_bounds:
  assumes "0 < x"
  shows "2 powi floor_log2 x \<le> x \<and> x < 2 powi (floor_log2 x + 1)"
proof (cases "1 \<le> x")
  case True
  define n where "n = nat \<lfloor>x\<rfloor>"
  define L where "L = floorlog 2 n"
  have fl: "1 \<le> \<lfloor>x\<rfloor>"
    using True by simp
  then have rn: "real n = of_int \<lfloor>x\<rfloor>"
    by (simp add: n_def)
  have n: "0 < n" "real n \<le> x" "x < real n + 1"
    using fl rn by (simp add: n_def, linarith, linarith)
  have b: "2 ^ (L - 1) \<le> n" "n < 2 ^ L"
    using floorlog_bounds [of n 2] n(1) by (simp_all add: L_def)
  have L: "0 < L"
    using b(2) n(1) by (cases L) simp_all
  have e: "floor_log2 x = int L - 1"
    using True by (simp add: floor_log2_def n_def L_def)
  have i: "int L - 1 = int (L - 1)"
    using L by simp
  have p1: "(2::real) powi (int L - 1) = 2 ^ (L - 1)"
    unfolding i by (rule power_int_of_nat)
  have p2: "(2::real) powi (int L - 1 + 1) = 2 ^ L"
    by simp
  have lo: "(2::real) ^ (L - 1) \<le> real n"
    using b(1) by (metis of_nat_le_iff of_nat_numeral of_nat_power)
  have hi: "real n + 1 \<le> 2 ^ L"
  proof -
    have "n + 1 \<le> 2 ^ L" using b(2) by simp
    then have "real (n + 1) \<le> real (2 ^ L)" by (rule of_nat_mono)
    then show ?thesis by simp
  qed
  show ?thesis
    unfolding e p1 p2 using lo hi n by linarith
next
  case False
  define N where "N = \<lceil>1 / x\<rceil>"
  define M where "M = nat (N - 1)"
  define L where "L = floorlog 2 M"
  have x1: "1 < 1 / x"
    using assms False by simp
  have N: "2 \<le> N" "1 / x \<le> of_int N" "of_int N - 1 < 1 / x"
    unfolding N_def using x1 by linarith+
  have M: "0 < M" "real M = of_int N - 1"
    using N(1) by (simp_all add: M_def)
  have b: "2 ^ (L - 1) \<le> M" "M < 2 ^ L"
    using floorlog_bounds [of M 2] M(1) by (simp_all add: L_def)
  have L: "0 < L"
    using b(2) M(1) by (cases L) simp_all
  have e: "floor_log2 x = - int L"
    using False by (simp add: floor_log2_def N_def M_def L_def)
  have lo: "(2::real) ^ (L - 1) \<le> real M"
    using b(1) by (metis of_nat_le_iff of_nat_numeral of_nat_power)
  have hi: "real M + 1 \<le> 2 ^ L"
  proof -
    have "M + 1 \<le> 2 ^ L" using b(2) by simp
    then have "real (M + 1) \<le> real (2 ^ L)" by (rule of_nat_mono)
    then show ?thesis by simp
  qed
  have "1 / x \<le> 2 ^ L"
    using N(2) M(2) hi by linarith
  then have 1: "1 / 2 ^ L \<le> x"
    using assms by (simp add: field_simps)
  have "2 ^ (L - 1) < 1 / x"
    using N(3) M(2) lo by linarith
  then have 2: "x < 1 / 2 ^ (L - 1)"
    using assms by (simp add: field_simps)
  have p1: "(2::real) powi (- int L) = 1 / 2 ^ L"
    by (simp add: power_int_minus_divide)
  have i: "- int L + 1 = - int (L - 1)"
    using L by simp
  have p2: "(2::real) powi (- int L + 1) = 1 / 2 ^ (L - 1)"
    unfolding i by (simp add: power_int_minus_divide del: of_nat_diff)
  show ?thesis
    unfolding e p1 p2 using 1 2 by simp
qed

lemma floor_log2_unique:
  assumes "0 < x" and "2 powi e \<le> x" and "x < 2 powi (e + 1)"
  shows "floor_log2 x = e"
proof -
  let ?f = "floor_log2 x"
  have b: "2 powi ?f \<le> x" "x < 2 powi (?f + 1)"
    using floor_log2_bounds [OF assms(1)] by simp_all
  have "\<not> ?f < e"
  proof
    assume "?f < e"
    then have "(2::real) powi (?f + 1) \<le> 2 powi e"
      by (intro power_int_increasing) simp_all
    with b(2) assms(2) show False by linarith
  qed
  moreover have "\<not> e < ?f"
  proof
    assume "e < ?f"
    then have "(2::real) powi (e + 1) \<le> 2 powi ?f"
      by (intro power_int_increasing) simp_all
    with b(1) assms(3) show False by linarith
  qed
  ultimately show ?thesis by simp
qed

lemma rne_bounds: "\<lfloor>y\<rfloor> \<le> rne y \<and> rne y \<le> \<lceil>y\<rceil>"
proof -
  have "y - of_int \<lfloor>y\<rfloor> \<noteq> 0 \<Longrightarrow> \<lfloor>y\<rfloor> + 1 \<le> \<lceil>y\<rceil>"
    by linarith
  then show ?thesis
    by (auto simp: rne_def Let_def)
qed

lemma rne_of_int [simp]: "rne (of_int z) = z"
  using rne_bounds [of "of_int z"] by simp

lemma rne_le: "y \<le> of_int n \<Longrightarrow> rne y \<le> n"
  using rne_bounds [of y] by (meson ceiling_le order_trans)

lemma rne_ge: "of_int n \<le> y \<Longrightarrow> n \<le> rne y"
  using rne_bounds [of y] by (meson le_floor_iff order_trans)

lemma rne_minus: "rne (- y) = - rne y"
proof (cases "y = of_int \<lfloor>y\<rfloor>")
  case True
  then have "rne y = \<lfloor>y\<rfloor>" "rne (- y) = - \<lfloor>y\<rfloor>"
    by (metis rne_of_int, metis of_int_minus rne_of_int)
  then show ?thesis by simp
next
  case False
  then have f: "\<lfloor>- y\<rfloor> = - \<lfloor>y\<rfloor> - 1"
    by linarith
  show ?thesis
    using False by (auto simp: rne_def Let_def f)
qed

lemma two_powi_pos [simp]: "0 < (2::real) powi k"
  by (simp add: zero_less_power_int)

lemma binade_ge: "- 1022 \<le> binade x"
  by (simp add: binade_def)

lemma binade_upper:
  assumes "x \<noteq> 0"
  shows "\<bar>x\<bar> < 2 powi (binade x + 1)"
proof -
  have "\<bar>x\<bar> < 2 powi (floor_log2 \<bar>x\<bar> + 1)"
    using floor_log2_bounds [of "\<bar>x\<bar>"] assms by simp
  also have "\<dots> \<le> 2 powi (binade x + 1)"
    by (intro power_int_increasing) (simp_all add: binade_def)
  finally show ?thesis .
qed

lemma binade_le:
  assumes "x \<noteq> 0" and "\<bar>x\<bar> < 2 powi (k + 1)" and "- 1022 \<le> k"
  shows "binade x \<le> k"
proof -
  have "floor_log2 \<bar>x\<bar> \<le> k"
  proof (rule ccontr)
    assume "\<not> floor_log2 \<bar>x\<bar> \<le> k"
    then have "(2::real) powi (k + 1) \<le> 2 powi floor_log2 \<bar>x\<bar>"
      by (intro power_int_increasing) simp_all
    with floor_log2_bounds [of "\<bar>x\<bar>"] assms show False
      by simp
  qed
  with assms(3) show ?thesis
    by (simp add: binade_def)
qed

lemma binade_eq:
  assumes "2 powi e \<le> \<bar>x\<bar>" and "\<bar>x\<bar> < 2 powi (e + 1)" and "- 1022 \<le> e"
  shows "binade x = e"
proof -
  have "0 < \<bar>x\<bar>"
    using assms(1) two_powi_pos [of e] by linarith
  then have "floor_log2 \<bar>x\<bar> = e"
    using assms by (intro floor_log2_unique) simp_all
  with assms(3) show ?thesis
    by (simp add: binade_def)
qed

lemma binade_lower:
  assumes "2 powi k \<le> \<bar>x\<bar>" and "- 1022 \<le> k"
  shows "k \<le> binade x \<and> 2 powi binade x \<le> \<bar>x\<bar>"
proof -
  have pos: "0 < \<bar>x\<bar>"
    using assms(1) two_powi_pos [of k] by linarith
  have k: "k \<le> floor_log2 \<bar>x\<bar>"
  proof (rule ccontr)
    assume "\<not> k \<le> floor_log2 \<bar>x\<bar>"
    then have "(2::real) powi (floor_log2 \<bar>x\<bar> + 1) \<le> 2 powi k"
      by (intro power_int_increasing) simp_all
    with floor_log2_bounds [OF pos] assms(1) show False
      by simp
  qed
  then have "binade x = floor_log2 \<bar>x\<bar>"
    using assms(2) by (simp add: binade_def)
  with k floor_log2_bounds [OF pos] show ?thesis
    by simp
qed

lemma binade_minus [simp]: "binade (- x) = binade x"
  by (simp add: binade_def)

lemma round64_Num:
  assumes "x \<noteq> 0" and "\<bar>x\<bar> < 2 powi (k + 1)" and "- 1022 \<le> k" and "k < 1023"
  shows "round64 x = Num (of_int (rne (x / 2 powi (binade x - 52))) * 2 powi (binade x - 52))"
proof -
  let ?e = "binade x"
  let ?q = "(2::real) powi (?e - 52)"
  have e: "?e \<le> k"
    using assms by (intro binade_le)
  have "\<bar>x\<bar> / ?q < 2 powi (?e + 1) / ?q"
    using binade_upper [OF assms(1)] by (simp add: divide_strict_right_mono)
  also have "2 powi (?e + 1) / ?q = (2::real) powi 53"
    by (simp flip: power_int_diff)
  finally have b: "\<bar>x / ?q\<bar> < 2 ^ 53"
    by simp
  have "x / ?q \<le> \<bar>x / ?q\<bar>" "- \<bar>x / ?q\<bar> \<le> x / ?q"
    by linarith+
  with b have "x / ?q \<le> 2 ^ 53" "- (2 ^ 53) \<le> x / ?q"
    by linarith+
  then have "x / ?q \<le> of_int (2 ^ 53)" "of_int (- (2 ^ 53)) \<le> x / ?q"
    by simp_all
  then have "rne (x / ?q) \<le> 2 ^ 53" "- (2 ^ 53) \<le> rne (x / ?q)"
    by (simp_all only: rne_le rne_ge)
  then have "\<bar>rne (x / ?q)\<bar> \<le> 2 ^ 53"
    by simp
  then have "\<bar>real_of_int (rne (x / ?q))\<bar> \<le> 2 ^ 53"
    by (metis of_int_abs of_int_le_iff of_int_numeral of_int_power)
  then have "\<bar>of_int (rne (x / ?q)) * ?q\<bar> \<le> 2 ^ 53 * ?q"
    by (simp add: abs_mult mult_right_mono)
  also have "2 ^ 53 * ?q = (2::real) powi (?e + 1)"
  proof -
    have "(2::real) powi 53 * 2 powi (?e - 52) = 2 powi (53 + (?e - 52))"
      by (rule power_int_add [symmetric]) simp
    then show ?thesis
      by (simp add: add.commute)
  qed
  also have "\<dots> \<le> 2 powi 1023"
    using e assms(4) by (intro power_int_increasing) simp_all
  also have "\<dots> < (2::real) powi 1024"
    by (intro power_int_strict_increasing) simp_all
  finally have "\<not> 2 powi 1024 \<le> \<bar>of_int (rne (x / ?q)) * ?q\<bar>"
    by simp
  then show ?thesis
    using assms(1) unfolding round64_def Let_def by simp
qed

lemma round64_eval:
  assumes "2 powi e \<le> \<bar>x\<bar>" and "\<bar>x\<bar> < 2 powi (e + 1)" and "- 1022 \<le> e" and "e < 1023"
  shows "round64 x = Num (of_int (rne (x / 2 powi (e - 52))) * 2 powi (e - 52))"
proof -
  have "0 < \<bar>x\<bar>"
    using assms(1) two_powi_pos [of e] by linarith
  then have "x \<noteq> 0"
    by auto
  from round64_Num [OF this assms(2,3,4)] binade_eq [OF assms(1,2,3)] show ?thesis
    by simp
qed

lemma round64_minus: "round64 (- x) = fneg (round64 x)"
  by (simp add: round64_def Let_def fneg_def rne_minus abs_mult)

lemma round64_int:
  assumes "\<bar>z\<bar> < 2 ^ 53"
  shows "round64 (of_int z) = Num (of_int z)"
proof (cases "z = 0")
  case True
  then show ?thesis by (simp add: round64_def)
next
  case False
  let ?x = "real_of_int z"
  let ?e = "binade ?x"
  have x0: "?x \<noteq> 0"
    using False by simp
  have "\<bar>?x\<bar> < 2 ^ 53"
    using assms by (metis of_int_abs of_int_less_iff of_int_numeral of_int_power)
  then have lt: "\<bar>?x\<bar> < 2 powi (52 + 1)"
    by simp
  have e: "?e \<le> 52"
    using x0 lt by (intro binade_le) simp_all
  define j where "j = nat (52 - ?e)"
  have q: "(2::real) powi (?e - 52) = 1 / 2 ^ j"
  proof -
    have "?e - 52 = - int j" using e by (simp add: j_def)
    then show ?thesis by (simp add: power_int_minus_divide)
  qed
  have "?x / (2 powi (?e - 52)) = of_int (z * 2 ^ j)"
    by (simp add: q)
  then have "rne (?x / (2 powi (?e - 52))) = z * 2 ^ j"
    by (metis rne_of_int)
  then have "of_int (rne (?x / (2 powi (?e - 52)))) * 2 powi (?e - 52) = ?x"
    by (simp add: q)
  with round64_Num [OF x0 lt] show ?thesis
    by simp
qed

lemma round64_upper:
  assumes "0 \<le> x" and "x \<le> of_int m" and "m < 2 ^ 53"
  shows "\<exists>y. round64 x = Num y \<and> 0 \<le> y \<and> y \<le> of_int m"
proof (cases "x = 0")
  case True
  with assms show ?thesis by (simp add: round64_def)
next
  case False
  let ?e = "binade x"
  have "real_of_int m < 2 ^ 53"
    using assms(3) by (metis of_int_less_iff of_int_numeral of_int_power)
  then have lt: "\<bar>x\<bar> < 2 powi (52 + 1)"
    using assms by simp
  have e: "?e \<le> 52"
    using False lt by (intro binade_le) simp_all
  define j where "j = nat (52 - ?e)"
  have q: "(2::real) powi (?e - 52) = 1 / 2 ^ j"
  proof -
    have "?e - 52 = - int j" using e by (simp add: j_def)
    then show ?thesis by (simp add: power_int_minus_divide)
  qed
  let ?r = "rne (x / (2 powi (?e - 52)))"
  have "x / (2 powi (?e - 52)) \<le> of_int (m * 2 ^ j)"
    using assms(2) by (simp add: q)
  then have up: "?r \<le> m * 2 ^ j"
    by (rule rne_le)
  have "of_int 0 \<le> x / (2 powi (?e - 52))"
    using assms(1) by (simp add: q)
  then have lo: "0 \<le> ?r"
    by (rule rne_ge)
  have "real_of_int ?r \<le> of_int (m * 2 ^ j)"
    using up by (rule of_int_le_iff [THEN iffD2])
  then have "of_int ?r * (1 / 2 ^ j) \<le> of_int (m * 2 ^ j) * (1 / 2 ^ j :: real)"
    by (intro mult_right_mono) simp_all
  then have "of_int ?r * (2 powi (?e - 52)) \<le> real_of_int m"
    by (simp add: q)
  moreover have "0 \<le> of_int ?r * ((2::real) powi (?e - 52))"
    using lo by simp
  ultimately show ?thesis
    using round64_Num [OF False lt] by simp
qed

lemma round64_lower_pow2:
  assumes "2 powi k \<le> x" and "- 1022 \<le> k"
  shows "round64 x = PosInf \<or> (\<exists>y. round64 x = Num y \<and> 2 powi k \<le> y)"
proof -
  let ?e = "binade x"
  let ?q = "(2::real) powi (?e - 52)"
  have pos: "0 < x"
    using assms(1) two_powi_pos [of k] by linarith
  have b: "k \<le> ?e" "2 powi ?e \<le> x"
    using binade_lower [of k x] assms pos by simp_all
  have "2 powi ?e / ?q = (2::real) powi 52"
    by (simp flip: power_int_diff)
  then have "of_int (2 ^ 52) \<le> x / ?q"
    using b(2) divide_right_mono [of "2 powi ?e" x ?q] by simp
  then have "2 ^ 52 \<le> rne (x / ?q)"
    by (rule rne_ge)
  then have "real_of_int (2 ^ 52) \<le> of_int (rne (x / ?q))"
    by (rule of_int_le_iff [THEN iffD2])
  then have "real_of_int (2 ^ 52) * ?q \<le> of_int (rne (x / ?q)) * ?q"
    by (intro mult_right_mono) simp_all
  moreover have "real_of_int (2 ^ 52) * ?q = (2::real) powi ?e"
  proof -
    have "(2::real) powi 52 * 2 powi (?e - 52) = 2 powi (52 + (?e - 52))"
      by (rule power_int_add [symmetric]) simp
    then show ?thesis
      by simp
  qed
  moreover have "(2::real) powi k \<le> 2 powi ?e"
    using b(1) by (intro power_int_increasing) simp_all
  ultimately have "2 powi k \<le> of_int (rne (x / ?q)) * ?q"
    by linarith
  then show ?thesis
    using pos unfolding round64_def Let_def by auto
qed

section \<open>Exact operations on small integers\<close>

lemma round64_nat: "k < 2 ^ 53 \<Longrightarrow> round64 (real k) = Num (real k)"
  using round64_int [of "int k"] by simp

lemma fmul_nat:
  "a * b < 2 ^ 53 \<Longrightarrow> fmul (Num (real a)) (Num (real b)) = Num (real (a * b))"
  using round64_nat [of "a * b"] by (simp add: fmul_def)

lemma fadd_nat:
  "a + b < 2 ^ 53 \<Longrightarrow> fadd (Num (real a)) (Num (real b)) = Num (real (a + b))"
  using round64_nat [of "a + b"] by (simp add: fadd_def)

section \<open>The runtime writers on in-range values\<close>

lemma js_trunc_of_nat: "js_trunc (real k) = int k"
  by (simp add: js_trunc_def)

lemma js_trunc_of_int: "js_trunc (of_int z) = z"
  by (simp add: js_trunc_def)

lemma toUint8_of_nat: "toUint8 (Num (real k)) = of_nat k"
  by (simp add: toUint8_def js_trunc_of_nat)

lemma ushr8_of_nat: "k < 2 ^ 32 \<Longrightarrow> ushr8 (Num (real k)) = Num (real (k div 256))"
proof -
  assume "k < 2 ^ 32"
  then have "int k mod 2 ^ 32 = int k"
    by simp
  then have "(js_trunc (real k) mod 2 ^ 32) div 2 ^ 8 = int (k div 256)"
    by (simp add: js_trunc_of_nat zdiv_int)
  then show ?thesis
    by (simp add: ushr8_def)
qed

lemma Buffer_write4:
  "off \<le> length buf \<Longrightarrow>
   Buffer_write [a, b, c, d] off buf =
     Inr (buf[off := of_char a, off + 1 := of_char b, off + 2 := of_char c, off + 3 := of_char d])"
  by (simp add: Buffer_write_def numeral_2_eq_2 numeral_3_eq_3)

lemma writeUInt32LE_nat:
  assumes "k < 2 ^ 32" and "off + 4 \<le> length buf"
  shows "writeUInt32LE (Num (real k)) off buf =
     Inr (buf[off := of_nat k, off + 1 := of_nat (k div 2 ^ 8),
              off + 2 := of_nat (k div 2 ^ 16), off + 3 := of_nat (k div 2 ^ 24)])"
proof -
  have a: "k div 256 < 2 ^ 32" "k div 65536 < 2 ^ 32"
    using assms(1) by simp_all
  have b: "k div 256 div 256 = k div 65536" "k div 65536 div 256 = k div 16777216"
    by (simp_all add: div_mult2_eq [symmetric])
  have "\<not> real k > 4294967295"
    using assms(1) by (simp add: not_less)
  then show ?thesis
    using assms a
    by (simp add: writeUInt32LE_def js_gt_def js_lt_def ushr8_of_nat toUint8_of_nat b)
qed

lemma writeUInt16LE_nat:
  assumes "k < 2 ^ 16" and "off + 2 \<le> length buf"
  shows "writeUInt16LE (Num (real k)) off buf =
     Inr (buf[off := of_nat k, off + 1 := of_nat (k div 2 ^ 8)])"
proof -
  have "\<not> real k > 65535"
    using assms(1) by (simp add: not_less)
  then show ?thesis
    using assms
    by (simp add: writeUInt16LE_def js_gt_def js_lt_def ushr8_of_nat toUint8_of_nat)
qed

lemma list_update_Cons_numeral: "(x # xs)[numeral k := y] = x # xs[pred_numeral k := y]"
  by (simp add: numeral_eq_Suc)

lemma Buffer_alloc_44:
  "Buffer_alloc 44 = [0,0,0,0, 0,0,0,0, 0,0,0,0, 0,0,0,0, 0,0,0,0, 0,0,0,0, 0,0,0,0,
     0,0,0,0, 0,0,0,0, 0,0,0,0, 0,0,0,0]"
  by (simp add: Buffer_alloc_def numeral_eq_Suc)

lemma writeUInt32LE_numeral:
  "numeral w < (2 ^ 32 :: nat) \<Longrightarrow> off + 4 \<le> length buf \<Longrightarrow>
   writeUInt32LE (Num (numeral w)) off buf =
     Inr (buf[off := of_nat (numeral w), off + 1 := of_nat (numeral w div 2 ^ 8),
              off + 2 := of_nat (numeral w div 2 ^ 16), off + 3 := of_nat (numeral w div 2 ^ 24)])"
  using writeUInt32LE_nat [of "numeral w" off buf] by simp

lemma writeUInt16LE_numeral:
  "numeral w < (2 ^ 16 :: nat) \<Longrightarrow> off + 2 \<le> length buf \<Longrightarrow>
   writeUInt16LE (Num (numeral w)) off buf =
     Inr (buf[off := of_nat (numeral w), off + 1 := of_nat (numeral w div 2 ^ 8)])"
  using writeUInt16LE_nat [of "numeral w" off buf] by simp

lemma writeUInt16LE_1:
  "off + 2 \<le> length buf \<Longrightarrow> writeUInt16LE (Num 1) off buf = Inr (buf[off := 1, off + 1 := 0])"
  using writeUInt16LE_nat [of 1 off buf] by simp

lemma header_sizes:
  assumes "36 + 2 * n < 2 ^ 32"
  shows "fmul (Num (real n)) (Num 2) = Num (real (2 * n))"
    and "fadd (Num 36) (Num (real (2 * n))) = Num (real (36 + 2 * n))"
    and "fmul (Num 44100) (Num 2) = Num 88200"
proof -
  have s: "n * 2 < 2 ^ 53" "36 + 2 * n < 2 ^ 53"
    using assms by simp_all
  show d: "fmul (Num (real n)) (Num 2) = Num (real (2 * n))"
    using fmul_nat [of n 2] s(1) by (simp add: mult.commute)
  show "fadd (Num 36) (Num (real (2 * n))) = Num (real (36 + 2 * n))"
    using fadd_nat [of 36 "2 * n"] s(2) by simp
  show "fmul (Num 44100) (Num 2) = Num 88200"
    using fmul_nat [of 44100 2] by simp
qed

lemma getWavHeader_layout:
  assumes "36 + 2 * n < 2 ^ 32"
  shows "getWavHeader (Num (real n)) (Num 44100) =
     Inr (ascii ''RIFF'' @ le32 (36 + 2 * n) @ ascii ''WAVE'' @ ascii ''fmt '' @ le32 16
          @ le16 1 @ le16 1 @ le32 44100 @ le32 88200 @ le16 2 @ le16 16
          @ ascii ''data'' @ le32 (2 * n))"
proof -
  have w1: "writeUInt32LE (Num (real (36 + 2 * n))) off buf =
     Inr (buf[off := of_nat (36 + 2 * n), off + 1 := of_nat ((36 + 2 * n) div 2 ^ 8),
              off + 2 := of_nat ((36 + 2 * n) div 2 ^ 16),
              off + 3 := of_nat ((36 + 2 * n) div 2 ^ 24)])"
    if "off + 4 \<le> length buf" for off buf
    using assms that by (intro writeUInt32LE_nat) simp_all
  have w2: "writeUInt32LE (Num (real (2 * n))) off buf =
     Inr (buf[off := of_nat (2 * n), off + 1 := of_nat ((2 * n) div 2 ^ 8),
              off + 2 := of_nat ((2 * n) div 2 ^ 16),
              off + 3 := of_nat ((2 * n) div 2 ^ 24)])"
    if "off + 4 \<le> length buf" for off buf
    using assms that by (intro writeUInt32LE_nat) simp_all
  show ?thesis
    unfolding getWavHeader_def Let_def header_sizes [OF assms]
    by (simp add: Buffer_alloc_44 bind_err_def Buffer_write4 w1 w2
        writeUInt32LE_numeral writeUInt16LE_numeral writeUInt16LE_1
        list_update_Cons_numeral ascii_def le32_def le16_def del: of_nat_add of_nat_mult)
qed

lemma getWavHeader_overflow:
  assumes "2 ^ 32 \<le> 36 + 2 * n"
  shows "getWavHeader (Num (real n)) (Num 44100) = Inl ERR_OUT_OF_RANGE"
proof -
  have d: "fmul (Num (real n)) (Num 2) = PosInf
      \<or> (\<exists>y. fmul (Num (real n)) (Num 2) = Num y \<and> 2 ^ 32 - 36 \<le> y)"
  proof (cases "2 * n < 2 ^ 53")
    case True
    then have "fmul (Num (real n)) (Num 2) = Num (real (2 * n))"
      using fmul_nat [of n 2] by (simp add: mult.commute)
    moreover have "(2::real) ^ 32 - 36 \<le> real (2 * n)"
    proof -
      have "real (2 ^ 32) \<le> real (36 + 2 * n)"
        using assms by (rule of_nat_mono)
      then show ?thesis by simp
    qed
    ultimately show ?thesis by simp
  next
    case False
    then have "real (2 ^ 53) \<le> real (2 * n)"
      by (intro of_nat_mono) simp
    then have "2 powi 53 \<le> real n * 2"
      by simp
    from round64_lower_pow2 [OF this] show ?thesis
      by (auto simp: fmul_def)
  qed
  have "js_gt (fadd (Num 36) (fmul (Num (real n)) (Num 2))) (Num 4294967295)"
    using d
  proof (elim disjE exE conjE)
    assume "fmul (Num (real n)) (Num 2) = PosInf"
    then show ?thesis
      by (simp add: fadd_def js_gt_def js_lt_def)
  next
    fix y
    assume y: "fmul (Num (real n)) (Num 2) = Num y" "2 ^ 32 - 36 \<le> y"
    then have "2 powi 32 \<le> 36 + y"
      by simp
    from round64_lower_pow2 [OF this] show ?thesis
      by (auto simp: y(1) fadd_def js_gt_def js_lt_def)
  qed
  then show ?thesis
    by (simp add: getWavHeader_def Let_def Buffer_alloc_44 Buffer_write4 bind_err_def
        writeUInt32LE_def)
qed

section \<open>Reading the fields back\<close>

lemma le32_roundtrip:
  fixes k :: nat
  shows "k mod 256 + k div 256 mod 256 * 256 + k div 65536 mod 256 * 65536
     + k div 16777216 * 16777216 = k"
proof -
  have 1: "k = k div 256 * 256 + k mod 256"
    by simp
  have 2: "k div 256 = k div 65536 * 256 + k div 256 mod 256"
    using div_mult_mod_eq [of "k div 256" 256] by (simp add: div_mult2_eq [symmetric])
  have 3: "k div 65536 = k div 16777216 * 256 + k div 65536 mod 256"
    using div_mult_mod_eq [of "k div 65536" 256] by (simp add: div_mult2_eq [symmetric])
  from 1 2 3 show ?thesis
    by linarith
qed

lemma unat_u8_of_nat: "unat (of_nat k :: u8) = k mod 256"
  by (simp add: unat_of_nat)

lemma readUInt32LE_le32:
  assumes "k < 2 ^ 32"
  shows "readUInt32LE (pre @ le32 k @ post) (length pre) = k"
proof -
  have "k div 16777216 < 256"
    using assms by simp
  then show ?thesis
    using le32_roundtrip [of k]
    by (simp add: readUInt32LE_def le32_def nth_append unat_u8_of_nat)
qed

lemma readUInt16LE_le16:
  assumes "k < 2 ^ 16"
  shows "readUInt16LE (pre @ le16 k @ post) (length pre) = k"
proof -
  have "k div 256 < 256"
    using assms by simp
  then show ?thesis
    by (simp add: readUInt16LE_def le16_def nth_append unat_u8_of_nat)
qed




section \<open>The quantising loop\<close>

lemma clamp_cases:
  "Math_max (Num (- 1)) (Math_min (Num 1) NaN) = NaN"
  "Math_max (Num (- 1)) (Math_min (Num 1) PosInf) = Num 1"
  "Math_max (Num (- 1)) (Math_min (Num 1) NegInf) = Num (- 1)"
  "Math_max (Num (- 1)) (Math_min (Num 1) (Num r)) = Num (max (- 1) (min 1 r))"
  by (auto simp: Math_max_def Math_min_def js_lt_def max_def min_def)

lemma clamp_finite:
  assumes "x \<noteq> NaN"
  shows "\<exists>c. Math_max (Num (- 1)) (Math_min (Num 1) x) = Num c \<and> - 1 \<le> c \<and> c \<le> 1"
  using assms by (cases x) (simp_all add: clamp_cases)

lemma scaled_bounds:
  assumes "- 1 \<le> c" and "c \<le> 1"
  shows "\<exists>y. fmul (Num c) (Num 32767) = Num y \<and> - 32767 \<le> y \<and> y \<le> 32767"
proof (cases "0 \<le> c")
  case True
  then have "0 \<le> c * 32767" "c * 32767 \<le> of_int 32767"
    using assms by simp_all
  from round64_upper [OF this] show ?thesis
    by (auto simp: fmul_def)
next
  case False
  then have "0 \<le> - c * 32767" "- c * 32767 \<le> of_int 32767"
    using assms by simp_all
  from round64_upper [OF this] obtain y where
    y: "round64 (- c * 32767) = Num y" "0 \<le> y" "y \<le> 32767"
    by auto
  have "round64 (c * 32767) = fneg (round64 (- c * 32767))"
    using round64_minus [of "- c * 32767"] by simp
  with y show ?thesis
    by (simp add: fmul_def fneg_def)
qed



lemma high_byte: "(word_of_int ((z mod 2 ^ 32) div 2 ^ 8) :: u8) = word_of_int (z div 2 ^ 8)"
proof -
  have "take_bit 8 (drop_bit 8 (take_bit 32 z)) = take_bit 8 (drop_bit 8 z)"
    by (simp add: drop_bit_take_bit)
  then show ?thesis
    by (simp add: word_of_int_eq_iff take_bit_eq_mod drop_bit_eq_div)
qed

lemma writeInt16LE_clamped:
  assumes "off + 2 \<le> length buf"
  shows "writeInt16LE (fmul (Math_max (Num (- 1)) (Math_min (Num 1) x)) (Num 32767)) off buf =
           Inr (buf[off := word_of_int (quantize x), off + 1 := word_of_int (quantize x div 2 ^ 8)])"
proof (cases "x = NaN")
  case True
  then show ?thesis
    using assms
    by (simp add: clamp_cases fmul_def writeInt16LE_def js_gt_def js_lt_def toUint8_def
        ushr8_def quantize_def js_trunc_def)
next
  case False
  from clamp_finite [OF this] obtain c where
    c: "Math_max (Num (- 1)) (Math_min (Num 1) x) = Num c" "- 1 \<le> c" "c \<le> 1"
    by auto
  from scaled_bounds [OF c(2,3)] obtain y where
    y: "fmul (Num c) (Num 32767) = Num y" "- 32767 \<le> y" "y \<le> 32767"
    by auto
  have q: "quantize x = js_trunc y"
    by (simp add: quantize_def c y)
  have "\<not> y > 32767" "\<not> y < - 32768"
    using y by linarith+
  then show ?thesis
    using assms high_byte [of "js_trunc y"]
    by (simp add: c y q writeInt16LE_def js_gt_def js_lt_def toUint8_def ushr8_def
        js_trunc_of_int)
qed

lemma quantize_loop_inv:
  "i \<le> length samples \<Longrightarrow> length pre = 2 * i \<Longrightarrow> length rest = 2 * (length samples - i) \<Longrightarrow>
   quantize_loop samples i (pre @ rest) =
     Inr (pre @ concat (map (\<lambda>s. le16s (quantize s)) (drop i samples)))"
proof (induction "length samples - i" arbitrary: i pre rest)
  case 0
  then show ?case by (simp add: quantize_loop.simps [of samples i])
next
  case (Suc k)
  then have i: "i < length samples"
    by simp
  with Suc.prems obtain a b rest' where rest: "rest = a # b # rest'"
    by (cases rest; cases "tl rest") auto
  have w: "writeInt16LE (fmul (Math_max (Num (- 1)) (Math_min (Num 1) (samples ! i))) (Num 32767))
      (i * 2) (pre @ rest) = Inr ((pre @ le16s (quantize (samples ! i))) @ rest')"
    using Suc.prems(2) by (simp add: writeInt16LE_clamped rest list_update_append le16s_def)
  have "quantize_loop samples (Suc i) ((pre @ le16s (quantize (samples ! i))) @ rest') =
      Inr ((pre @ le16s (quantize (samples ! i))) @
           concat (map (\<lambda>s. le16s (quantize s)) (drop (Suc i) samples)))"
    using Suc.hyps Suc.prems i rest
    by (intro Suc.hyps(1)) (auto simp: le16s_def)
  then show ?case
    using i w
    by (simp add: quantize_loop.simps [of samples i] Cons_nth_drop_Suc [symmetric] Let_def
        del: append_assoc)
qed

lemma pcm_data_eq: "pcm_data samples = Inr (concat (map (\<lambda>s. le16s (quantize s)) samples))"
  using quantize_loop_inv [of 0 samples "[]" "Buffer_alloc (length samples * 2)"]
  by (simp add: pcm_data_def Buffer_alloc_def)

lemma length_concat_le16s: "length (concat (map (\<lambda>s. le16s (quantize s)) samples)) = 2 * length samples"
  by (induction samples) (simp_all add: le16s_def)



section \<open>The header\<close>

lemma getWavHeader_canonical:
  "36 + 2 * n < 2 ^ 32 \<Longrightarrow>
   getWavHeader (Num (real n)) (Num 44100) = Inr (canonical_header 44100 (2 * n))"
  by (simp add: getWavHeader_layout canonical_header_def)

lemma length_canonical_header: "length (canonical_header r d) = 44"
  by (simp add: canonical_header_def ascii_def le32_def le16_def)

lemma canonical_header_tags:
  "take 4 (canonical_header r d) = ascii ''RIFF''"
  "take 4 (drop 8 (canonical_header r d)) = ascii ''WAVE''"
  "take 4 (drop 12 (canonical_header r d)) = ascii ''fmt ''"
  "take 4 (drop 36 (canonical_header r d)) = ascii ''data''"
  by (simp_all add: canonical_header_def ascii_def le32_def le16_def)

lemma readUInt32LE_at:
  "length pre = off \<Longrightarrow> k < 2 ^ 32 \<Longrightarrow> readUInt32LE (pre @ le32 k @ post) off = k"
  using readUInt32LE_le32 [of k pre post] by simp

lemma readUInt16LE_at:
  "length pre = off \<Longrightarrow> k < 2 ^ 16 \<Longrightarrow> readUInt16LE (pre @ le16 k @ post) off = k"
  using readUInt16LE_le16 [of k pre post] by simp

lemma length_segments [simp]:
  "length (le32 k) = 4" "length (le16 k) = 2" "length (le16s z) = 2"
  "length (ascii str) = length str"
  by (simp_all add: le32_def le16_def le16s_def ascii_def)

lemma canonical_header_fields:
  assumes "36 + d < 2 ^ 32"
  shows "readUInt32LE (canonical_header 44100 d) 4 = 36 + d"
    and "readUInt32LE (canonical_header 44100 d) 16 = 16"
    and "readUInt16LE (canonical_header 44100 d) 20 = 1"
    and "readUInt16LE (canonical_header 44100 d) 22 = 1"
    and "readUInt32LE (canonical_header 44100 d) 24 = 44100"
    and "readUInt32LE (canonical_header 44100 d) 28 = 88200"
    and "readUInt16LE (canonical_header 44100 d) 32 = 2"
    and "readUInt16LE (canonical_header 44100 d) 34 = 16"
    and "readUInt32LE (canonical_header 44100 d) 40 = d"
proof -
  have d: "d < 2 ^ 32"
    using assms by simp
  show "readUInt32LE (canonical_header 44100 d) 4 = 36 + d"
    unfolding canonical_header_def
    using assms by (intro readUInt32LE_at) simp_all
  have "readUInt32LE ((ascii ''RIFF'' @ le32 (36 + d) @ ascii ''WAVE'' @ ascii ''fmt '')
      @ le32 16 @ post) 16 = 16" for post
    by (rule readUInt32LE_at) simp_all
  then show "readUInt32LE (canonical_header 44100 d) 16 = 16"
    by (simp add: canonical_header_def)
  have "readUInt16LE ((ascii ''RIFF'' @ le32 (36 + d) @ ascii ''WAVE'' @ ascii ''fmt '' @ le32 16)
      @ le16 1 @ post) 20 = 1" for post
    by (rule readUInt16LE_at) simp_all
  then show "readUInt16LE (canonical_header 44100 d) 20 = 1"
    by (simp add: canonical_header_def)
  have "readUInt16LE ((ascii ''RIFF'' @ le32 (36 + d) @ ascii ''WAVE'' @ ascii ''fmt '' @ le32 16
      @ le16 1) @ le16 1 @ post) 22 = 1" for post
    by (rule readUInt16LE_at) simp_all
  then show "readUInt16LE (canonical_header 44100 d) 22 = 1"
    by (simp add: canonical_header_def)
  have "readUInt32LE ((ascii ''RIFF'' @ le32 (36 + d) @ ascii ''WAVE'' @ ascii ''fmt '' @ le32 16
      @ le16 1 @ le16 1) @ le32 44100 @ post) 24 = 44100" for post
    by (rule readUInt32LE_at) simp_all
  then show "readUInt32LE (canonical_header 44100 d) 24 = 44100"
    by (simp add: canonical_header_def)
  have "readUInt32LE ((ascii ''RIFF'' @ le32 (36 + d) @ ascii ''WAVE'' @ ascii ''fmt '' @ le32 16
      @ le16 1 @ le16 1 @ le32 44100) @ le32 88200 @ post) 28 = 88200" for post
    by (rule readUInt32LE_at) simp_all
  then show "readUInt32LE (canonical_header 44100 d) 28 = 88200"
    by (simp add: canonical_header_def)
  have "readUInt16LE ((ascii ''RIFF'' @ le32 (36 + d) @ ascii ''WAVE'' @ ascii ''fmt '' @ le32 16
      @ le16 1 @ le16 1 @ le32 44100 @ le32 88200) @ le16 2 @ post) 32 = 2" for post
    by (rule readUInt16LE_at) simp_all
  then show "readUInt16LE (canonical_header 44100 d) 32 = 2"
    by (simp add: canonical_header_def)
  have "readUInt16LE ((ascii ''RIFF'' @ le32 (36 + d) @ ascii ''WAVE'' @ ascii ''fmt '' @ le32 16
      @ le16 1 @ le16 1 @ le32 44100 @ le32 88200 @ le16 2) @ le16 16 @ post) 34 = 16" for post
    by (rule readUInt16LE_at) simp_all
  then show "readUInt16LE (canonical_header 44100 d) 34 = 16"
    by (simp add: canonical_header_def)
  have "readUInt32LE ((ascii ''RIFF'' @ le32 (36 + d) @ ascii ''WAVE'' @ ascii ''fmt '' @ le32 16
      @ le16 1 @ le16 1 @ le32 44100 @ le32 88200 @ le16 2 @ le16 16 @ ascii ''data'')
      @ le32 d @ []) 40 = d"
    using d by (intro readUInt32LE_at) simp_all
  then show "readUInt32LE (canonical_header 44100 d) 40 = d"
    by (simp add: canonical_header_def)
qed

lemma createWavData_eq:
  assumes "36 + 2 * length samples < 2 ^ 32"
  shows "createWavData samples =
     Inr (canonical_header 44100 (2 * length samples) @ concat (map (\<lambda>s. le16s (quantize s)) samples))"
  using assms
  by (simp add: createWavData_def pcm_data_eq getWavHeader_canonical bind_err_def Buffer_concat_def)

section \<open>The custom-mode loops\<close>

lemma chord_forEach_values:
  "chord_forEach w c t (s, g) = (let (vs, g') = chord_values w c t g in (foldl fadd s vs, g'))"
  by (induction c arbitrary: s g) (simp_all add: chord_forEach_def split: prod.split)

lemma waveform_pure:
  "instrumentId \<noteq> Num 6 \<Longrightarrow>
   getInstrumentWaveform m instrumentId f t g =
     (fst (getInstrumentWaveform m instrumentId f t g'), g)"
  by (simp add: getInstrumentWaveform_def Let_def)

lemma chord_values_pure:
  assumes "\<And>f g. w f t g = (fst (w f t g'), g)"
  shows "chord_values w c t g = (map (\<lambda>p. fst (w p t g')) c, g)"
proof (induction c)
  case Nil
  show ?case by simp
next
  case (Cons p ps)
  have "w p t g = (fst (w p t g'), g)"
    by (rule assms)
  with Cons show ?case
    by simp
qed

lemma render_sample_pure:
  assumes "\<And>f g. w f t g = (fst (w f t g'), g)"
  shows "render_sample w n volume t g = (fst (render_sample w n volume t g'), g)"
proof (cases "note_chord n")
  case None
  have "w (note_freq n) t g = (fst (w (note_freq n) t g'), g)"
    by (rule assms)
  with None show ?thesis
    by (simp add: render_sample_def case_prod_beta)
next
  case (Some c)
  have "chord_values w c t h = (map (\<lambda>p. fst (w p t g')) c, h)" for h
    using assms by (rule chord_values_pure)
  with Some show ?thesis
    by (simp add: render_sample_def chord_forEach_values case_prod_beta)
qed

lemma js_lt_indices_below:
  assumes "c \<noteq> PosInf"
  shows "js_lt (Num (real i)) c \<longleftrightarrow> i < indices_below c"
proof (cases c)
  case (Num x)
  have "real i < x \<longleftrightarrow> int i < \<lceil>x\<rceil>"
    by linarith
  then show ?thesis
    by (auto simp: Num js_lt_def indices_below_def)
qed (use assms in \<open>simp_all add: js_lt_def indices_below_def\<close>)

lemma note_loop_block:
  assumes "c \<noteq> PosInf"
  shows "length samples + (indices_below c - i) \<le> max_array_length \<Longrightarrow>
     note_loop w n volume sampleRate c i (samples, g) =
       Inr (let (block, g') = spec_block w n volume sampleRate i (indices_below c - i) g
            in (samples @ block, g'))"
proof (induction "indices_below c - i" arbitrary: i samples g)
  case 0
  then have "\<not> js_lt (Num (real i)) c"
    using js_lt_indices_below [OF assms, of i] by simp
  with 0 show ?case
    by (simp add: note_loop.simps [of w n volume sampleRate c i])
next
  case (Suc k)
  then have lt: "js_lt (Num (real i)) c" and k: "k = indices_below c - Suc i"
    using js_lt_indices_below [OF assms, of i] by simp_all
  have room: "\<not> max_array_length \<le> length samples"
    using Suc.prems Suc.hyps(2) by simp
  obtain sample g' where
    r: "render_sample w n volume (fdiv (Num (real i)) sampleRate) g = (sample, g')"
    by (cases "render_sample w n volume (fdiv (Num (real i)) sampleRate) g")
  obtain rest g'' where b: "spec_block w n volume sampleRate (Suc i) k g' = (rest, g'')"
    by (cases "spec_block w n volume sampleRate (Suc i) k g'")
  have "length (samples @ [sample]) + (indices_below c - Suc i) \<le> max_array_length"
    using Suc.prems Suc.hyps(2) by simp
  from Suc.hyps(1) [OF k this, of g']
  have "note_loop w n volume sampleRate c (Suc i) (samples @ [sample], g') =
      Inr ((samples @ [sample]) @ rest, g'')"
    using b k by simp
  then show ?case
    using lt r b room Suc.hyps(2) [symmetric]
    by (simp add: note_loop.simps [of w n volume sampleRate c i])
qed

lemma custom_forEach:
  assumes "\<And>n. n \<in> set ns \<Longrightarrow> Math_floor (fmul sampleRate (note_noteDuration n)) \<noteq> PosInf"
  shows "length samples
       + sum_list (map (\<lambda>n. indices_below (Math_floor (fmul sampleRate (note_noteDuration n)))) ns)
       \<le> max_array_length \<Longrightarrow>
     forEach_err (\<lambda>n st. note_loop w n volume sampleRate
                            (Math_floor (fmul sampleRate (note_noteDuration n))) 0 st)
       ns (samples, g) =
     Inr (let (r, g') = spec_render w volume sampleRate
                          (\<lambda>n. indices_below (Math_floor (fmul sampleRate (note_noteDuration n))))
                          ns g
          in (samples @ r, g'))"
  using assms
proof (induction ns arbitrary: samples g)
  case Nil
  show ?case by simp
next
  case (Cons n ns)
  let ?cnt = "\<lambda>n. indices_below (Math_floor (fmul sampleRate (note_noteDuration n)))"
  obtain block g' where b: "spec_block w n volume sampleRate 0 (?cnt n) g = (block, g')"
    by (cases "spec_block w n volume sampleRate 0 (?cnt n) g")
  have len: "length block = ?cnt n"
  proof -
    have "length (fst (spec_block w n volume sampleRate i k h)) = k" for i k h
      by (induction k arbitrary: i h) (simp_all add: case_prod_beta)
    from this [of 0 "?cnt n" g] b show ?thesis by simp
  qed
  have fin: "Math_floor (fmul sampleRate (note_noteDuration n)) \<noteq> PosInf"
    using Cons.prems(2) by simp
  have "length samples + (?cnt n - 0) \<le> max_array_length"
    using Cons.prems(1) by simp
  from note_loop_block [OF fin this]
  have step: "note_loop w n volume sampleRate (Math_floor (fmul sampleRate (note_noteDuration n)))
      0 (samples, g) = Inr (samples @ block, g')"
    using b by simp
  have "length (samples @ block) + sum_list (map ?cnt ns) \<le> max_array_length"
    using Cons.prems(1) len by simp
  from Cons.IH [OF this] Cons.prems(2)
  have "forEach_err (\<lambda>n st. note_loop w n volume sampleRate
                            (Math_floor (fmul sampleRate (note_noteDuration n))) 0 st)
       ns (samples @ block, g') =
     Inr (let (r, g'') = spec_render w volume sampleRate ?cnt ns g' in ((samples @ block) @ r, g''))"
    by simp
  then show ?case
    using step b by (simp add: case_prod_beta)
qed

lemma length_spec_block: "length (fst (spec_block w n volume sampleRate i k g)) = k"
  by (induction k arbitrary: i g) (simp_all add: case_prod_beta)

lemma length_spec_render:
  "length (fst (spec_render w volume sampleRate cnt ns g)) = sum_list (map cnt ns)"
proof (induction ns arbitrary: g)
  case Nil
  show ?case by simp
next
  case (Cons n ns)
  obtain block g' where b: "spec_block w n volume sampleRate 0 (cnt n) g = (block, g')"
    by (cases "spec_block w n volume sampleRate 0 (cnt n) g")
  have "length block = cnt n"
    using length_spec_block [of w n volume sampleRate 0 "cnt n" g] b by simp
  then show ?case
    using Cons [of g'] b by (simp add: case_prod_beta)
qed

lemma spec_block_pure:
  assumes "\<And>t g. render_sample w n volume t g = (fst (render_sample w n volume t g'), g)"
  shows "spec_block w n volume sampleRate i k g =
     (map (\<lambda>j. fst (render_sample w n volume (fdiv (Num (real j)) sampleRate) g')) [i..<i + k], g)"
proof (induction k arbitrary: i)
  case 0
  show ?case by simp
next
  case (Suc k)
  have "render_sample w n volume (fdiv (Num (real i)) sampleRate) g =
      (fst (render_sample w n volume (fdiv (Num (real i)) sampleRate) g'), g)"
    by (rule assms)
  moreover have "[i..<Suc (i + k)] = i # [Suc i..<Suc (i + k)]"
    using upt_rec [of i "Suc (i + k)"] by simp
  ultimately show ?case
    using Suc [of "Suc i"] by (simp del: upt_Suc)
qed

lemma spec_render_pure:
  assumes "\<And>n t g. render_sample w n volume t g = (fst (render_sample w n volume t g'), g)"
  shows "spec_render w volume sampleRate cnt ns g =
     (concat (map (\<lambda>n. map (\<lambda>j. fst (render_sample w n volume (fdiv (Num (real j)) sampleRate) g'))
                           [0..<cnt n]) ns), g)"
proof (induction ns)
  case Nil
  show ?case by simp
next
  case (Cons n ns)
  then show ?case
    using spec_block_pure [of w n volume g' sampleRate 0 "cnt n" g, OF assms] by simp
qed

text \<open>Without a bound on the counts: the random source does not reach the result.\<close>

lemma note_loop_rng:
  assumes "\<And>t g. render_sample w n volume t g = (fst (render_sample w n volume t g'), g)"
  shows "note_loop w n volume sampleRate c i (samples, g) =
     (case note_loop w n volume sampleRate c i (samples, g') of
        Inl e \<Rightarrow> Inl e
      | Inr p \<Rightarrow> Inr (fst p, g))"
proof (induction "max_array_length - length samples" arbitrary: i samples)
  case 0
  then have "max_array_length \<le> length samples"
    by simp
  then show ?case
    by (simp add: note_loop.simps [of w n volume sampleRate c i] case_prod_beta Let_def)
next
  case (Suc k)
  obtain s where r: "render_sample w n volume (fdiv (Num (real i)) sampleRate) g' = (s, g')"
      "render_sample w n volume (fdiv (Num (real i)) sampleRate) g = (s, g)"
    using assms [of "fdiv (Num (real i)) sampleRate" g']
      assms [of "fdiv (Num (real i)) sampleRate" g] by auto
  have "k = max_array_length - length (samples @ [s])"
    using Suc.hyps(2) by simp
  from Suc.hyps(1) [OF this, of "Suc i"] show ?case
    by (simp add: note_loop.simps [of w n volume sampleRate c i] r Let_def)
qed

lemma forEach_rng:
  assumes "\<And>n t g. render_sample w n volume t g = (fst (render_sample w n volume t g'), g)"
  shows "forEach_err (\<lambda>n st. note_loop w n volume sampleRate (cf n) 0 st) ns (samples, g) =
     (case forEach_err (\<lambda>n st. note_loop w n volume sampleRate (cf n) 0 st) ns (samples, g') of
        Inl e \<Rightarrow> Inl e
      | Inr p \<Rightarrow> Inr (fst p, g))"
proof (induction ns arbitrary: samples)
  case Nil
  show ?case by simp
next
  case (Cons n ns)
  have step: "note_loop w n volume sampleRate (cf n) 0 (samples, g) =
     (case note_loop w n volume sampleRate (cf n) 0 (samples, g') of
        Inl e \<Rightarrow> Inl e
      | Inr p \<Rightarrow> Inr (fst p, g))"
    using assms by (rule note_loop_rng)
  show ?case
  proof (cases "note_loop w n volume sampleRate (cf n) 0 (samples, g')")
    case (Inl e)
    with step show ?thesis by simp
  next
    case (Inr p)
    obtain s h where p: "p = (s, h)"
      by (cases p)
    have "h = g'"
    proof -
      have "note_loop w n volume sampleRate (cf n) 0 (samples, g') =
         (case note_loop w n volume sampleRate (cf n) 0 (samples, g') of
            Inl e \<Rightarrow> Inl e
          | Inr p \<Rightarrow> Inr (fst p, g'))"
        using assms by (rule note_loop_rng)
      with Inr p show ?thesis by simp
    qed
    with step Inr p Cons [of s] show ?thesis
      by simp
  qed
qed

section \<open>Evaluating the rounded operations\<close>

lemma round64_0 [simp]: "round64 0 = Num 0"
  by (simp add: round64_def)

lemma round64_numeral:
  "numeral w < (2 ^ 53 :: int) \<Longrightarrow> round64 (numeral w) = Num (numeral w)"
  using round64_int [of "numeral w"] by simp

lemma round64_neg_numeral:
  "numeral w < (2 ^ 53 :: int) \<Longrightarrow> round64 (- numeral w) = Num (- numeral w)"
  using round64_int [of "- numeral w"] by simp

lemma round64_1 [simp]: "round64 1 = Num 1" "round64 (- 1) = Num (- 1)"
  using round64_int [of 1] round64_int [of "- 1"] by simp_all

section \<open>The container and the quantizer\<close>

text \<open>
  Claim C3 (WavContainerWriter), amended. For a sample count \<open>n\<close> with
  \<open>36 + 2 * n < 2 ^ 32\<close> the header has 44 bytes: \<open>RIFF\<close>, ChunkSize \<open>36 + 2 * n\<close>,
  \<open>WAVE\<close>, \<open>fmt \<close>, Subchunk1Size 16, AudioFormat 1, NumChannels 1, SampleRate 44100,
  ByteRate 88200, BlockAlign 2, BitsPerSample 16, \<open>data\<close> and Subchunk2Size \<open>2 * n\<close>, the
  integers little-endian, and the WAV bytes are this header followed by the \<open>2 * n\<close>
  quantized data bytes. For every \<open>n\<close> with \<open>2 ^ 32 \<le> 36 + 2 * n\<close> the write of
  ChunkSize throws a range error and there is no header.
\<close>

theorem wav_header_canonical:
  "(36 + 2 * n < 2 ^ 32 \<longrightarrow>
      getWavHeader (Num (real n)) (Num 44100) = Inr (canonical_header 44100 (2 * n))
      \<and> length (canonical_header 44100 (2 * n)) = 44
      \<and> take 4 (canonical_header 44100 (2 * n)) = ascii ''RIFF''
      \<and> readUInt32LE (canonical_header 44100 (2 * n)) 4 = 36 + 2 * n
      \<and> take 4 (drop 8 (canonical_header 44100 (2 * n))) = ascii ''WAVE''
      \<and> take 4 (drop 12 (canonical_header 44100 (2 * n))) = ascii ''fmt ''
      \<and> readUInt32LE (canonical_header 44100 (2 * n)) 16 = 16
      \<and> readUInt16LE (canonical_header 44100 (2 * n)) 20 = 1
      \<and> readUInt16LE (canonical_header 44100 (2 * n)) 22 = 1
      \<and> readUInt32LE (canonical_header 44100 (2 * n)) 24 = 44100
      \<and> readUInt32LE (canonical_header 44100 (2 * n)) 28 = 88200
      \<and> readUInt16LE (canonical_header 44100 (2 * n)) 32 = 2
      \<and> readUInt16LE (canonical_header 44100 (2 * n)) 34 = 16
      \<and> take 4 (drop 36 (canonical_header 44100 (2 * n))) = ascii ''data''
      \<and> readUInt32LE (canonical_header 44100 (2 * n)) 40 = 2 * n
      \<and> (\<forall>samples. length samples = n \<longrightarrow>
            createWavData samples =
              Inr (canonical_header 44100 (2 * n) @ concat (map (\<lambda>s. le16s (quantize s)) samples))
            \<and> length (concat (map (\<lambda>s. le16s (quantize s)) samples)) = 2 * n))
   \<and> (2 ^ 32 \<le> 36 + 2 * n \<longrightarrow>
        getWavHeader (Num (real n)) (Num 44100) = Inl ERR_OUT_OF_RANGE)"
proof (intro conjI impI)
  assume r: "36 + 2 * n < 2 ^ 32"
  show "getWavHeader (Num (real n)) (Num 44100) = Inr (canonical_header 44100 (2 * n))"
    using r by (rule getWavHeader_canonical)
  show "length (canonical_header 44100 (2 * n)) = 44"
    by (rule length_canonical_header)
  show "take 4 (canonical_header 44100 (2 * n)) = ascii ''RIFF''"
    "take 4 (drop 8 (canonical_header 44100 (2 * n))) = ascii ''WAVE''"
    "take 4 (drop 12 (canonical_header 44100 (2 * n))) = ascii ''fmt ''"
    "take 4 (drop 36 (canonical_header 44100 (2 * n))) = ascii ''data''"
    by (rule canonical_header_tags)+
  show "readUInt32LE (canonical_header 44100 (2 * n)) 4 = 36 + 2 * n"
    "readUInt32LE (canonical_header 44100 (2 * n)) 16 = 16"
    "readUInt16LE (canonical_header 44100 (2 * n)) 20 = 1"
    "readUInt16LE (canonical_header 44100 (2 * n)) 22 = 1"
    "readUInt32LE (canonical_header 44100 (2 * n)) 24 = 44100"
    "readUInt32LE (canonical_header 44100 (2 * n)) 28 = 88200"
    "readUInt16LE (canonical_header 44100 (2 * n)) 32 = 2"
    "readUInt16LE (canonical_header 44100 (2 * n)) 34 = 16"
    "readUInt32LE (canonical_header 44100 (2 * n)) 40 = 2 * n"
    using canonical_header_fields [OF r] by simp_all
  show "\<forall>samples. length samples = n \<longrightarrow>
            createWavData samples =
              Inr (canonical_header 44100 (2 * n) @ concat (map (\<lambda>s. le16s (quantize s)) samples))
            \<and> length (concat (map (\<lambda>s. le16s (quantize s)) samples)) = 2 * n"
    using r by (auto simp: createWavData_eq length_concat_le16s)
next
  assume "2 ^ 32 \<le> 36 + 2 * n"
  then show "getWavHeader (Num (real n)) (Num 44100) = Inl ERR_OUT_OF_RANGE"
    by (rule getWavHeader_overflow)
qed

lemma quantize_one: "quantize (Num 1) = 32767"
  by (simp add: quantize_def clamp_cases fmul_def round64_numeral js_trunc_def)

theorem wav_header_canonical_witness:
  "36 + 2 * (1::nat) < 2 ^ 32
   \<and> getWavHeader (Num 1) (Num 44100) =
       Inr [82, 73, 70, 70, 38, 0, 0, 0, 87, 65, 86, 69, 102, 109, 116, 32, 16, 0, 0, 0,
            1, 0, 1, 0, 68, 172, 0, 0, 136, 88, 1, 0, 2, 0, 16, 0, 100, 97, 116, 97, 2, 0, 0, 0]
   \<and> createWavData [Num 1] =
       Inr [82, 73, 70, 70, 38, 0, 0, 0, 87, 65, 86, 69, 102, 109, 116, 32, 16, 0, 0, 0,
            1, 0, 1, 0, 68, 172, 0, 0, 136, 88, 1, 0, 2, 0, 16, 0, 100, 97, 116, 97, 2, 0, 0, 0,
            255, 127]
   \<and> (2::nat) ^ 32 \<le> 36 + 2 * 2147483630
   \<and> getWavHeader (Num 2147483630) (Num 44100) = Inl ERR_OUT_OF_RANGE"
proof -
  have h: "36 + 2 * (1::nat) < 2 ^ 32" and o: "(2::nat) ^ 32 \<le> 36 + 2 * 2147483630"
    by simp_all
  have "length [Num 1] = 1"
    by simp
  with wav_header_canonical [of 1] wav_header_canonical [of 2147483630] h o show ?thesis
    by (simp add: canonical_header_def ascii_def le32_def le16_def le16s_def quantize_one)
qed

text \<open>
  The claim as stated, for every count, fails at \<open>n = 2147483630\<close>, where ChunkSize
  would be \<open>2 ^ 32\<close>: the header is not produced.
\<close>

theorem wav_header_overflow_counterexample:
  "getWavHeader (Num 2147483630) (Num 44100) = Inl ERR_OUT_OF_RANGE"
  using getWavHeader_overflow [of 2147483630] by simp






text \<open>
  Claim C8 (empty input). For the empty sequence of days both renderers return no
  sample and raise no error, and the WAV buffer is the 44 bytes of the header alone, with
  Subchunk2Size 0 and ChunkSize 36.
\<close>

theorem empty_sequence_header_only:
  "createSamplesFromContributions m [] = Inr []
   \<and> customSamples m g [] instrumentId tempo volume = Inr ([], g)
   \<and> createWavData [] = Inr (canonical_header 44100 0)
   \<and> length (canonical_header 44100 0) = 44
   \<and> readUInt32LE (canonical_header 44100 0) 40 = 0
   \<and> readUInt32LE (canonical_header 44100 0) 4 = 36
   \<and> generateAndSendMusic m (\<lambda>u. Some []) username isStream =
        Transcoded (username @ ''.wav'') (canonical_header 44100 0) isStream"
proof -
  have s: "createSamplesFromContributions m [] = Inr []"
    by (simp add: createSamplesFromContributions_def)
  have c: "customSamples m g [] instrumentId tempo volume = Inr ([], g)"
    by (simp add: customSamples_def)
  have w: "createWavData [] = Inr (canonical_header 44100 0)"
    using createWavData_eq [of "[]"] by simp
  have f: "readUInt32LE (canonical_header 44100 0) 40 = 0"
    "readUInt32LE (canonical_header 44100 0) 4 = 36"
    using canonical_header_fields(1,9) [of 0] by simp_all
  show ?thesis
    by (simp add: s c w f length_canonical_header generateAndSendMusic_def)
qed

text \<open>
  Claim C10 (custom entry point of \<open>src/github/github.service.ts\<close>). The custom entry
  point does not look at its instrument, tempo and volume: its outcome is that of the
  simple entry point with the attachment disposition, for every user, every fetched
  sequence of days and every two configurations, so the samples and the WAV bytes are
  those of simple mode.
\<close>

theorem custom_entry_ignores_configuration:
  "generateCustomMusic m fetch username instrumentId tempo volume =
     generateAndSendMusic m fetch username False
   \<and> generateCustomMusic m fetch username instrumentId tempo volume =
       generateCustomMusic m fetch username instrumentId' tempo' volume'
   \<and> generateCustomMusic m fetch username instrumentId tempo volume =
       (case fetch username of
          None \<Rightarrow> Status404
        | Some days \<Rightarrow>
            (case createSamplesFromContributions m days of
               Inl e \<Rightarrow> Thrown e
             | Inr samples \<Rightarrow>
                 (case createWavData samples of
                    Inl e \<Rightarrow> Thrown e
                  | Inr wavData \<Rightarrow> Transcoded (username @ ''.wav'') wavData False)))"
  by (simp add: generateCustomMusic_def generateAndSendMusic_def)

section \<open>The custom-mode renderer against the block rendering\<close>

lemma note_count:
  "Math_floor (fmul (Num 44100) (note_noteDuration (note_of_day tempo day))) =
     day_sample_count tempo day"
  by (simp add: note_of_day_def day_sample_count_def Let_def)

lemma customSamples_spec_render:
  assumes "\<forall>day\<in>set days. day_sample_count tempo day \<noteq> PosInf"
    and "(\<Sum>day\<leftarrow>days. indices_below (day_sample_count tempo day)) \<le> max_array_length"
  shows "customSamples m g days instrumentId tempo volume =
     Inr (spec_render (getInstrumentWaveform m instrumentId) volume (Num 44100)
            (\<lambda>n. indices_below (Math_floor (fmul (Num 44100) (note_noteDuration n))))
            (map (note_of_day tempo) days) g)"
proof -
  let ?ns = "map (note_of_day tempo) days"
  have fin: "Math_floor (fmul (Num 44100) (note_noteDuration n)) \<noteq> PosInf" if "n \<in> set ?ns" for n
    using that assms(1) by (auto simp: note_count)
  have "(\<lambda>n. indices_below (Math_floor (fmul (Num 44100) (note_noteDuration n)))) \<circ> note_of_day tempo =
      (\<lambda>day. indices_below (day_sample_count tempo day))"
    by (rule ext) (simp add: note_count)
  then have fits: "length ([]::jsnum list)
      + sum_list (map (\<lambda>n. indices_below (Math_floor (fmul (Num 44100) (note_noteDuration n)))) ?ns)
      \<le> max_array_length"
    using assms(2) by simp
  from custom_forEach [of ?ns "Num 44100" "[]" "getInstrumentWaveform m instrumentId" volume g,
      OF fin fits]
  show ?thesis
    by (simp add: customSamples_def Let_def case_prod_beta)
qed

lemma customSamples_length:
  assumes "\<forall>day\<in>set days. day_sample_count tempo day \<noteq> PosInf"
    and "(\<Sum>day\<leftarrow>days. indices_below (day_sample_count tempo day)) \<le> max_array_length"
  shows "\<exists>samples g'. customSamples m g days instrumentId tempo volume = Inr (samples, g')
     \<and> length samples = (\<Sum>day\<leftarrow>days. indices_below (day_sample_count tempo day))"
proof -
  let ?r = "spec_render (getInstrumentWaveform m instrumentId) volume (Num 44100)
            (\<lambda>n. indices_below (Math_floor (fmul (Num 44100) (note_noteDuration n))))
            (map (note_of_day tempo) days) g"
  have "(\<lambda>n. indices_below (Math_floor (fmul (Num 44100) (note_noteDuration n)))) \<circ> note_of_day tempo =
      (\<lambda>day. indices_below (day_sample_count tempo day))"
    by (rule ext) (simp add: note_count)
  then have "length (fst ?r) = (\<Sum>day\<leftarrow>days. indices_below (day_sample_count tempo day))"
    by (simp add: length_spec_render)
  moreover have "customSamples m g days instrumentId tempo volume = Inr (fst ?r, snd ?r)"
    using customSamples_spec_render [OF assms] by simp
  ultimately show ?thesis
    by blast
qed

lemma customSamples_pure:
  assumes "\<forall>day\<in>set days. day_sample_count tempo day \<noteq> PosInf"
    and "(\<Sum>day\<leftarrow>days. indices_below (day_sample_count tempo day)) \<le> max_array_length"
    and "instrumentId \<noteq> Num 6"
  shows "customSamples m g days instrumentId tempo volume =
     Inr (concat (map (\<lambda>day. map (\<lambda>i. fst (render_sample (getInstrumentWaveform m instrumentId)
                                        (note_of_day tempo day) volume
                                        (fdiv (Num (real i)) (Num 44100)) g'))
                       [0..<indices_below (day_sample_count tempo day)]) days), g)"
proof -
  have w: "getInstrumentWaveform m instrumentId f t h =
      (fst (getInstrumentWaveform m instrumentId f t g'), h)" for f t h
    using assms(3) by (rule waveform_pure)
  have r: "render_sample (getInstrumentWaveform m instrumentId) n volume t h =
      (fst (render_sample (getInstrumentWaveform m instrumentId) n volume t g'), h)" for n t h
    using w by (rule render_sample_pure)
  have "spec_render (getInstrumentWaveform m instrumentId) volume (Num 44100)
      (\<lambda>n. indices_below (Math_floor (fmul (Num 44100) (note_noteDuration n))))
      (map (note_of_day tempo) days) g =
    (concat (map (\<lambda>n. map (\<lambda>j. fst (render_sample (getInstrumentWaveform m instrumentId) n volume
                                         (fdiv (Num (real j)) (Num 44100)) g'))
                      [0..<indices_below (Math_floor (fmul (Num 44100) (note_noteDuration n)))])
              (map (note_of_day tempo) days)), g)"
    by (rule spec_render_pure) (rule r)
  then show ?thesis
    using customSamples_spec_render [OF assms(1,2), of m g instrumentId volume]
    by (simp add: comp_def note_count)
qed

lemma indices_below_floor: "indices_below (Math_floor (Num x)) = nat \<lfloor>x\<rfloor>"
  by (simp add: indices_below_def Math_floor_def)

lemma day_sample_count_floor:
  assumes "fmul (Num 44100)
      (getNoteDurationFromContribution_f64 (Num (of_int (contributionCount day))) tempo) = Num x"
  shows "indices_below (day_sample_count tempo day) = nat \<lfloor>x\<rfloor>"
  using assms by (simp add: day_sample_count_def indices_below_floor)

subsection \<open>Three tempos evaluated\<close>

lemma duration_735:
  "getNoteDurationFromContribution_f64 (Num 1) (Num 735) =
     Num (5882252574524729 / 288230376151711744)"
proof -
  have a: "round64 (60 / 735) = Num (5882252574524729 / 72057594037927936)"
    using round64_eval [of "- 4" "60 / 735"] by (simp add: rne_def Let_def)
  have b: "round64 (5882252574524729 / 72057594037927936 / 4) =
      Num (5882252574524729 / 288230376151711744)"
    using round64_eval [of "- 6" "5882252574524729 / 72057594037927936 / 4"]
    by (simp add: rne_def Let_def)
  show ?thesis
    using a b
    by (simp add: getNoteDurationFromContribution_f64_def fdiv_def js_ge_def js_le_def js_lt_def
        Let_def)
qed

lemma product_735:
  "fmul (Num 44100) (Num (5882252574524729 / 288230376151711744)) =
     Num (7916483719987199 / 8796093022208)"
  using round64_eval [of 9 "44100 * (5882252574524729 / 288230376151711744)"]
  by (simp add: fmul_def rne_def Let_def)

lemma count_735:
  "day_sample_count (Num 735) \<lparr>date = d, contributionCount = 1\<rparr> = Num 899"
  by (simp add: day_sample_count_def duration_735 product_735 Math_floor_def)

lemma duration_120: "getNoteDurationFromContribution_f64 (Num 0) (Num 120) = Num (1 / 8)"
proof -
  have a: "round64 (60 / 120) = Num (1 / 2)"
    using round64_eval [of "- 1" "60 / 120"] by (simp add: rne_def Let_def)
  have b: "round64 (1 / 2 / 4) = Num (1 / 8)"
    using round64_eval [of "- 3" "1 / 2 / 4"] by (simp add: rne_def Let_def)
  show ?thesis
    using a b
    by (simp add: getNoteDurationFromContribution_f64_def fdiv_def js_ge_def js_le_def js_lt_def
        Let_def)
qed

lemma product_120: "fmul (Num 44100) (Num (1 / 8)) = Num (11025 / 2)"
  using round64_eval [of 12 "11025 / 2"] by (simp add: fmul_def rne_def Let_def)

lemma count_120:
  "day_sample_count (Num 120) \<lparr>date = d, contributionCount = 0\<rparr> = Num 5512"
  by (simp add: day_sample_count_def duration_120 product_120 Math_floor_def)

lemma duration_491520:
  "getNoteDurationFromContribution_f64 (Num 0) (Num 491520) = Num (1 / 32768)"
proof -
  have a: "round64 (60 / 491520) = Num (1 / 8192)"
    using round64_eval [of "- 13" "60 / 491520"] by (simp add: rne_def Let_def)
  have b: "round64 (1 / 8192 / 4) = Num (1 / 32768)"
    using round64_eval [of "- 15" "1 / 8192 / 4"] by (simp add: rne_def Let_def)
  show ?thesis
    using a b
    by (simp add: getNoteDurationFromContribution_f64_def fdiv_def js_ge_def js_le_def js_lt_def
        Let_def)
qed

lemma product_491520: "fmul (Num 44100) (Num (1 / 32768)) = Num (11025 / 8192)"
  using round64_eval [of 0 "11025 / 8192"] by (simp add: fmul_def rne_def Let_def)

lemma count_491520:
  "day_sample_count (Num 491520) \<lparr>date = d, contributionCount = 0\<rparr> = Num 1"
  by (simp add: day_sample_count_def duration_491520 product_491520 Math_floor_def)

text \<open>
  Claim C2 (custom-mode rendering), amended. The days are processed in input order. The
  count of a day is the floor of the double product \<open>44100 * durationSeconds\<close>, the
  duration being the result of the RhythmMapper in double arithmetic; the day appends
  one sample for every index below that count (none when the count is negative or NaN),
  with local time \<open>i / 44100\<close> starting at 0 for each day. When no count is
  \<open>Infinity\<close> and the counts together fit into an array, the total count is the sum of
  the counts of the days and the blocks are concatenated in the order of the days. For
  an instrument other than the noise burst the samples are written out as this
  concatenation.
\<close>

theorem custom_rendering_blocks:
  assumes "\<forall>day\<in>set days. day_sample_count tempo day \<noteq> PosInf"
    and "(\<Sum>day\<leftarrow>days. indices_below (day_sample_count tempo day)) \<le> max_array_length"
  shows "customSamples m g days instrumentId tempo volume =
       Inr (spec_render (getInstrumentWaveform m instrumentId) volume (Num 44100)
              (\<lambda>n. indices_below (Math_floor (fmul (Num 44100) (note_noteDuration n))))
              (map (note_of_day tempo) days) g)
   \<and> (\<exists>samples g'. customSamples m g days instrumentId tempo volume = Inr (samples, g')
         \<and> length samples = (\<Sum>day\<leftarrow>days. indices_below (day_sample_count tempo day)))
   \<and> (\<forall>day x. fmul (Num 44100)
           (getNoteDurationFromContribution_f64 (Num (of_int (contributionCount day))) tempo) = Num x
         \<longrightarrow> indices_below (day_sample_count tempo day) = nat \<lfloor>x\<rfloor>)
   \<and> (instrumentId \<noteq> Num 6 \<longrightarrow>
        customSamples m g days instrumentId tempo volume =
          Inr (concat (map (\<lambda>day. map (\<lambda>i. fst (render_sample (getInstrumentWaveform m instrumentId)
                                             (note_of_day tempo day) volume
                                             (fdiv (Num (real i)) (Num 44100)) g'))
                            [0..<indices_below (day_sample_count tempo day)]) days), g))"
  using customSamples_spec_render [OF assms, of m g instrumentId volume]
    customSamples_length [OF assms, of m g instrumentId volume]
    customSamples_pure [OF assms, of instrumentId m g volume g']
    day_sample_count_floor [of _ tempo]
  by simp

theorem custom_rendering_blocks_witness:
  "day_sample_count (Num 735) \<lparr>date = ''2023-01-01'', contributionCount = 1\<rparr> = Num 899
   \<and> (\<Sum>day\<leftarrow>[\<lparr>date = ''2023-01-01'', contributionCount = 1\<rparr>].
         indices_below (day_sample_count (Num 735) day)) \<le> max_array_length
   \<and> fmul (Num 44100) (getNoteDurationFromContribution_f64 (Num 1) (Num 735)) =
       Num (7916483719987199 / 8796093022208)
   \<and> Num 1 \<noteq> Num 6
   \<and> (\<exists>samples g'.
        customSamples \<lparr>sin_approx = \<lambda>x. Num 0, asin_approx = \<lambda>x. Num 0, exp_approx = \<lambda>x. Num 1\<rparr>
          (\<lambda>k. 0) [\<lparr>date = ''2023-01-01'', contributionCount = 1\<rparr>] (Num 1) (Num 735) (Num (1 / 2))
          = Inr (samples, g')
        \<and> length samples = 899)"
proof -
  have h: "\<forall>day\<in>set [\<lparr>date = ''2023-01-01'', contributionCount = 1\<rparr>].
       day_sample_count (Num 735) day \<noteq> PosInf"
    "(\<Sum>day\<leftarrow>[\<lparr>date = ''2023-01-01'', contributionCount = 1\<rparr>].
         indices_below (day_sample_count (Num 735) day)) \<le> max_array_length"
    by (simp_all add: count_735 indices_below_def max_array_length_def)
  have p: "fmul (Num 44100) (getNoteDurationFromContribution_f64 (Num 1) (Num 735)) =
       Num (7916483719987199 / 8796093022208)"
    by (simp add: duration_735 product_735)
  have i: "Num 1 \<noteq> Num 6"
    by simp
  from custom_rendering_blocks [OF h,
      of "\<lparr>sin_approx = \<lambda>x. Num 0, asin_approx = \<lambda>x. Num 0, exp_approx = \<lambda>x. Num 1\<rparr>"
         "\<lambda>k. 0" "Num 1" "Num (1 / 2)" "\<lambda>k. 0"]
  have "\<exists>samples g'.
        customSamples \<lparr>sin_approx = \<lambda>x. Num 0, asin_approx = \<lambda>x. Num 0, exp_approx = \<lambda>x. Num 1\<rparr>
          (\<lambda>k. 0) [\<lparr>date = ''2023-01-01'', contributionCount = 1\<rparr>] (Num 1) (Num 735) (Num (1 / 2))
          = Inr (samples, g')
        \<and> length samples = (\<Sum>day\<leftarrow>[\<lparr>date = ''2023-01-01'', contributionCount = 1\<rparr>].
             indices_below (day_sample_count (Num 735) day))"
    by blast
  then have "\<exists>samples g'.
        customSamples \<lparr>sin_approx = \<lambda>x. Num 0, asin_approx = \<lambda>x. Num 0, exp_approx = \<lambda>x. Num 1\<rparr>
          (\<lambda>k. 0) [\<lparr>date = ''2023-01-01'', contributionCount = 1\<rparr>] (Num 1) (Num 735) (Num (1 / 2))
          = Inr (samples, g')
        \<and> length samples = 899"
    by (simp add: count_735 indices_below_def)
  with h(2) p i count_735 [of "''2023-01-01''"] show ?thesis
    by blast
qed

text \<open>
  The claim as stated, with the count \<open>round (44100 * durationSeconds)\<close>, fails: at the
  default tempo 120 a day with no contribution lasts 0.125 s, the product is 5512.5, the
  loop appends 5512 samples, and the rounded count is 5513.
\<close>

theorem custom_rendering_round_counterexample:
  "(\<exists>samples g'.
      customSamples \<lparr>sin_approx = \<lambda>x. Num 0, asin_approx = \<lambda>x. Num 0, exp_approx = \<lambda>x. Num 1\<rparr>
        (\<lambda>k. 0) [\<lparr>date = ''2023-01-01'', contributionCount = 0\<rparr>] (Num 1) (Num 120) (Num (1 / 2))
        = Inr (samples, g')
      \<and> length samples = 5512)
   \<and> fmul (Num 44100) (getNoteDurationFromContribution_f64 (Num 0) (Num 120)) = Num (11025 / 2)
   \<and> round (11025 / 2 :: real) = 5513
   \<and> round (44100 * getNoteDurationFromContribution 0 120) = 5513"
proof -
  have h: "\<forall>day\<in>set [\<lparr>date = ''2023-01-01'', contributionCount = 0\<rparr>].
       day_sample_count (Num 120) day \<noteq> PosInf"
    "(\<Sum>day\<leftarrow>[\<lparr>date = ''2023-01-01'', contributionCount = 0\<rparr>].
         indices_below (day_sample_count (Num 120) day)) \<le> max_array_length"
    by (simp_all add: count_120 indices_below_def max_array_length_def)
  from customSamples_length [OF h,
      of "\<lparr>sin_approx = \<lambda>x. Num 0, asin_approx = \<lambda>x. Num 0, exp_approx = \<lambda>x. Num 1\<rparr>"
         "\<lambda>k. 0" "Num 1" "Num (1 / 2)"]
  have "\<exists>samples g'.
      customSamples \<lparr>sin_approx = \<lambda>x. Num 0, asin_approx = \<lambda>x. Num 0, exp_approx = \<lambda>x. Num 1\<rparr>
        (\<lambda>k. 0) [\<lparr>date = ''2023-01-01'', contributionCount = 0\<rparr>] (Num 1) (Num 120) (Num (1 / 2))
        = Inr (samples, g')
      \<and> length samples = 5512"
    by (simp add: count_120 indices_below_def)
  moreover have "fmul (Num 44100) (getNoteDurationFromContribution_f64 (Num 0) (Num 120)) =
      Num (11025 / 2)"
    by (simp add: duration_120 product_120)
  moreover have "round (11025 / 2 :: real) = 5513"
    "round (44100 * getNoteDurationFromContribution 0 120) = 5513"
    by (simp_all add: getNoteDurationFromContribution_def Let_def round_def)
  ultimately show ?thesis
    by blast
qed

section \<open>The waveforms\<close>

lemma round64_unit:
  assumes "- 1 \<le> x" and "x \<le> 1"
  shows "\<exists>y. round64 x = Num y \<and> - 1 \<le> y \<and> y \<le> 1"
proof (cases "0 \<le> x")
  case True
  then have "0 \<le> x" "x \<le> of_int 1"
    using assms by simp_all
  from round64_upper [OF this] show ?thesis
    by auto
next
  case False
  then have "0 \<le> - x" "- x \<le> of_int 1"
    using assms by simp_all
  from round64_upper [OF this] obtain y where
    y: "round64 (- x) = Num y" "0 \<le> y" "y \<le> 1"
    by auto
  have "round64 x = fneg (round64 (- x))"
    using round64_minus [of "- x"] by simp
  with y show ?thesis
    by (simp add: fneg_def)
qed

lemma noise_factor:
  assumes "0 \<le> r" and "r < 1"
  shows "\<exists>y. fsub (fmul (Num r) (Num 2)) (Num 1) = Num y \<and> - 1 \<le> y \<and> y \<le> 1"
proof -
  have "0 \<le> r * 2" "r * 2 \<le> of_int 2"
    using assms by simp_all
  from round64_upper [OF this] obtain d where
    d: "round64 (r * 2) = Num d" "0 \<le> d" "d \<le> 2"
    by auto
  have "- 1 \<le> d - 1" "d - 1 \<le> 1"
    using d by simp_all
  from round64_unit [OF this] d(1) show ?thesis
    by (simp add: fsub_def fmul_def fadd_def fneg_def)
qed

lemma frem_nonneg:
  assumes "0 \<le> y" and "0 < p"
  shows "frem (Num y) (Num p) = Num (y - p * of_int \<lfloor>y / p\<rfloor>)
     \<and> 0 \<le> y - p * of_int \<lfloor>y / p\<rfloor> \<and> y - p * of_int \<lfloor>y / p\<rfloor> < p"
proof -
  have "0 \<le> y / p"
    using assms by simp
  then have "frem (Num y) (Num p) = Num (y - p * of_int \<lfloor>y / p\<rfloor>)"
    using assms by (simp add: frem_def js_trunc_def)
  moreover have "of_int \<lfloor>y / p\<rfloor> * p \<le> y"
    using assms(2) of_int_floor_le [of "y / p"] by (simp only: pos_le_divide_eq)
  moreover have "y < (of_int \<lfloor>y / p\<rfloor> + 1) * p"
    using assms(2) real_of_int_floor_add_one_gt [of "y / p"] by (simp only: pos_divide_less_eq)
  ultimately show ?thesis
    by (simp add: algebra_simps)
qed

lemma render_sample_chord:
  assumes "note_chord n = Some c"
  shows "render_sample w n volume t g =
     (let (vs, g') = chord_values w c t g
      in (fmul (fdiv (foldl fadd (Num 0) vs) (Num (real (length c)))) volume, g'))"
  using assms by (simp add: render_sample_def chord_forEach_values case_prod_beta)

lemma sawtooth_10_1:
  "getInstrumentWaveform m (Num 4) (Num 10) (Num 1) g =
     (Num (4503599627370491 / 4503599627370496), g)"
proof -
  have p: "round64 (1 / 10) = Num (3602879701896397 / 36028797018963968)"
    using round64_eval [of "- 4" "1 / 10"] by (simp add: rne_def Let_def)
  have r: "frem (Num 1) (Num (3602879701896397 / 36028797018963968)) =
      Num (3602879701896395 / 36028797018963968)"
    by (simp add: frem_def js_trunc_def)
  have d: "round64 (2 * (3602879701896395 / 36028797018963968)) =
      Num (3602879701896395 / 18014398509481984)"
    using round64_eval [of "- 3" "2 * (3602879701896395 / 36028797018963968)"]
    by (simp add: rne_def Let_def)
  have q: "round64 (3602879701896395 / 18014398509481984 / (3602879701896397 / 36028797018963968)) =
      Num (9007199254740987 / 4503599627370496)"
    using round64_eval [of 0
        "3602879701896395 / 18014398509481984 / (3602879701896397 / 36028797018963968)"]
    by (simp add: rne_def Let_def)
  have s: "round64 (9007199254740987 / 4503599627370496 - 1) =
      Num (4503599627370491 / 4503599627370496)"
    using round64_eval [of "- 1" "9007199254740987 / 4503599627370496 - 1"]
    by (simp add: rne_def Let_def)
  show ?thesis
    using p r d q s
    by (simp add: getInstrumentWaveform_def fdiv_def fmul_def fsub_def fadd_def fneg_def Let_def)
qed

text \<open>
  Claim C7 (WaveformSynthesizer), amended. The instruments 1 to 8 compute their formulas
  in double arithmetic, every operation rounded, in the order the source writes them,
  with \<open>Math.PI\<close> for \<open>\<pi>\<close> and the platform's \<open>Math.sin\<close>, \<open>Math.asin\<close> and \<open>Math.exp\<close>. The
  sawtooth takes the exact remainder of \<open>t\<close> by the rounded period \<open>1 / f\<close>, which lies
  between 0 and that period. The noise burst multiplies \<open>r * 2 - 1\<close>, for the next number
  \<open>r\<close> of the random source, by \<open>Math.exp (- t * 5)\<close>; for \<open>r\<close> in \<open>[0, 1)\<close> the factor is a
  number in \<open>[-1, 1]\<close>. Every other instrument id gives the waveform of instrument 1. With
  a chord the sample is the mean of the waveform at the pitches of the chord for the
  same \<open>t\<close>: the values are added from 0 in the order of the pitches, the sum is divided
  by the number of pitches, and the result is then scaled by the volume.
\<close>

theorem waveform_synthesizer_variants:
  "getInstrumentWaveform m (Num 1) f t g =
       (Math_sin m (fmul (fmul (fmul (Num 2) Math_PI) f) t), g)
   \<and> getInstrumentWaveform m (Num 2) f t g =
       (fdiv (fadd (Math_sin m (fmul (fmul (fmul (Num 2) Math_PI) f) t))
                (fmul (Num 0.5) (Math_sin m (fmul (fmul (fmul (fmul (Num 2) Math_PI) f) (Num 2)) t))))
          (Num 1.5), g)
   \<and> getInstrumentWaveform m (Num 3) f t g =
       (fmul (fdiv (Num 2) Math_PI)
          (Math_asin m (Math_sin m (fmul (fmul (fmul (Num 2) Math_PI) f) t))), g)
   \<and> getInstrumentWaveform m (Num 4) f t g =
       (fsub (fdiv (fmul (Num 2) (frem t (fdiv (Num 1) f))) (fdiv (Num 1) f)) (Num 1), g)
   \<and> (\<forall>y p. t = Num y \<and> 0 \<le> y \<and> fdiv (Num 1) f = Num p \<and> 0 < p \<longrightarrow>
         frem t (fdiv (Num 1) f) = Num (y - p * of_int \<lfloor>y / p\<rfloor>)
         \<and> 0 \<le> y - p * of_int \<lfloor>y / p\<rfloor> \<and> y - p * of_int \<lfloor>y / p\<rfloor> < p)
   \<and> getInstrumentWaveform m (Num 5) f t g =
       (Math_sign (Math_sin m (fmul (fmul (fmul (Num 2) Math_PI) f) t)), g)
   \<and> getInstrumentWaveform m (Num 6) f t g =
       (fmul (fsub (fmul (Num (g 0)) (Num 2)) (Num 1)) (Math_exp m (fmul (fneg t) (Num 5))),
        \<lambda>k. g (Suc k))
   \<and> (0 \<le> g 0 \<and> g 0 < 1 \<longrightarrow>
        (\<exists>y. - 1 \<le> y \<and> y \<le> 1
           \<and> getInstrumentWaveform m (Num 6) f t g =
               (fmul (Num y) (Math_exp m (fmul (fneg t) (Num 5))), \<lambda>k. g (Suc k))))
   \<and> getInstrumentWaveform m (Num 7) f t g =
       (fmul (Math_sin m (fmul (fmul (fmul (Num 2) Math_PI) f) t))
          (Math_sin m (fmul (fmul (fmul (fmul (Num 2) Math_PI) f) t) (Num 0.5))), g)
   \<and> getInstrumentWaveform m (Num 8) f t g =
       (Math_sin m (fadd (fmul (fmul (fmul (Num 2) Math_PI) f) t)
                      (fmul (Num 5) (Math_sin m (fmul (fmul (fmul (Num 2) Math_PI) (Num 5)) t)))), g)
   \<and> (instrumentId \<notin> {Num 1, Num 2, Num 3, Num 4, Num 5, Num 6, Num 7, Num 8} \<longrightarrow>
        getInstrumentWaveform m instrumentId = getInstrumentWaveform m (Num 1))
   \<and> (\<forall>n c. note_chord n = Some c \<longrightarrow>
        render_sample (getInstrumentWaveform m instrumentId) n volume t g =
          (let (vs, g') = chord_values (getInstrumentWaveform m instrumentId) c t g
           in (fmul (fdiv (foldl fadd (Num 0) vs) (Num (real (length c)))) volume, g')))
   \<and> (\<forall>c. instrumentId \<noteq> Num 6 \<longrightarrow>
        chord_values (getInstrumentWaveform m instrumentId) c t g =
          (map (\<lambda>p. fst (getInstrumentWaveform m instrumentId p t g)) c, g))"
proof -
  have v1: "getInstrumentWaveform m (Num 1) f t g =
       (Math_sin m (fmul (fmul (fmul (Num 2) Math_PI) f) t), g)"
    by (simp add: getInstrumentWaveform_def)
  have v2: "getInstrumentWaveform m (Num 2) f t g =
       (fdiv (fadd (Math_sin m (fmul (fmul (fmul (Num 2) Math_PI) f) t))
                (fmul (Num 0.5) (Math_sin m (fmul (fmul (fmul (fmul (Num 2) Math_PI) f) (Num 2)) t))))
          (Num 1.5), g)"
    by (simp add: getInstrumentWaveform_def)
  have v3: "getInstrumentWaveform m (Num 3) f t g =
       (fmul (fdiv (Num 2) Math_PI)
          (Math_asin m (Math_sin m (fmul (fmul (fmul (Num 2) Math_PI) f) t))), g)"
    by (simp add: getInstrumentWaveform_def Let_def)
  have v4: "getInstrumentWaveform m (Num 4) f t g =
       (fsub (fdiv (fmul (Num 2) (frem t (fdiv (Num 1) f))) (fdiv (Num 1) f)) (Num 1), g)"
    by (simp add: getInstrumentWaveform_def Let_def)
  have r4: "\<forall>y p. t = Num y \<and> 0 \<le> y \<and> fdiv (Num 1) f = Num p \<and> 0 < p \<longrightarrow>
         frem t (fdiv (Num 1) f) = Num (y - p * of_int \<lfloor>y / p\<rfloor>)
         \<and> 0 \<le> y - p * of_int \<lfloor>y / p\<rfloor> \<and> y - p * of_int \<lfloor>y / p\<rfloor> < p"
    using frem_nonneg by simp
  have v5: "getInstrumentWaveform m (Num 5) f t g =
       (Math_sign (Math_sin m (fmul (fmul (fmul (Num 2) Math_PI) f) t)), g)"
    by (simp add: getInstrumentWaveform_def)
  have v6: "getInstrumentWaveform m (Num 6) f t g =
       (fmul (fsub (fmul (Num (g 0)) (Num 2)) (Num 1)) (Math_exp m (fmul (fneg t) (Num 5))),
        \<lambda>k. g (Suc k))"
    by (simp add: getInstrumentWaveform_def Math_random_def)
  have r6: "0 \<le> g 0 \<and> g 0 < 1 \<longrightarrow>
        (\<exists>y. - 1 \<le> y \<and> y \<le> 1
           \<and> getInstrumentWaveform m (Num 6) f t g =
               (fmul (Num y) (Math_exp m (fmul (fneg t) (Num 5))), \<lambda>k. g (Suc k)))"
  proof
    assume "0 \<le> g 0 \<and> g 0 < 1"
    then obtain y where "fsub (fmul (Num (g 0)) (Num 2)) (Num 1) = Num y" "- 1 \<le> y" "y \<le> 1"
      using noise_factor [of "g 0"] by auto
    with v6 show "\<exists>y. - 1 \<le> y \<and> y \<le> 1
           \<and> getInstrumentWaveform m (Num 6) f t g =
               (fmul (Num y) (Math_exp m (fmul (fneg t) (Num 5))), \<lambda>k. g (Suc k))"
      by auto
  qed
  have v7: "getInstrumentWaveform m (Num 7) f t g =
       (fmul (Math_sin m (fmul (fmul (fmul (Num 2) Math_PI) f) t))
          (Math_sin m (fmul (fmul (fmul (fmul (Num 2) Math_PI) f) t) (Num 0.5))), g)"
    by (simp add: getInstrumentWaveform_def)
  have v8: "getInstrumentWaveform m (Num 8) f t g =
       (Math_sin m (fadd (fmul (fmul (fmul (Num 2) Math_PI) f) t)
                      (fmul (Num 5) (Math_sin m (fmul (fmul (fmul (Num 2) Math_PI) (Num 5)) t)))), g)"
    by (simp add: getInstrumentWaveform_def)
  have dflt: "instrumentId \<notin> {Num 1, Num 2, Num 3, Num 4, Num 5, Num 6, Num 7, Num 8} \<longrightarrow>
        getInstrumentWaveform m instrumentId = getInstrumentWaveform m (Num 1)"
    by (simp add: getInstrumentWaveform_def)
  have mean: "\<forall>n c. note_chord n = Some c \<longrightarrow>
        render_sample (getInstrumentWaveform m instrumentId) n volume t g =
          (let (vs, g') = chord_values (getInstrumentWaveform m instrumentId) c t g
           in (fmul (fdiv (foldl fadd (Num 0) vs) (Num (real (length c)))) volume, g'))"
    by (simp add: render_sample_chord)
  have pure: "\<forall>c. instrumentId \<noteq> Num 6 \<longrightarrow>
        chord_values (getInstrumentWaveform m instrumentId) c t g =
          (map (\<lambda>p. fst (getInstrumentWaveform m instrumentId p t g)) c, g)"
  proof (intro allI impI)
    fix c
    assume "instrumentId \<noteq> Num 6"
    then have "getInstrumentWaveform m instrumentId p t h =
        (fst (getInstrumentWaveform m instrumentId p t g), h)" for p h
      by (rule waveform_pure)
    then show "chord_values (getInstrumentWaveform m instrumentId) c t g =
        (map (\<lambda>p. fst (getInstrumentWaveform m instrumentId p t g)) c, g)"
      by (rule chord_values_pure)
  qed
  from v1 v2 v3 v4 r4 v5 v6 r6 v7 v8 dflt mean pure show ?thesis
    by blast
qed

theorem waveform_synthesizer_variants_witness:
  "Num 1 = Num 1 \<and> (0::real) \<le> 1
   \<and> fdiv (Num 1) (Num 10) = Num (3602879701896397 / 36028797018963968)
   \<and> (0::real) < 3602879701896397 / 36028797018963968
   \<and> frem (Num 1) (fdiv (Num 1) (Num 10)) = Num (3602879701896395 / 36028797018963968)
   \<and> getInstrumentWaveform
        \<lparr>sin_approx = \<lambda>x. Num 0, asin_approx = \<lambda>x. Num 0, exp_approx = \<lambda>x. Num 1\<rparr>
        (Num 4) (Num 10) (Num 1) (\<lambda>k. 1 / 2)
       = (Num (4503599627370491 / 4503599627370496), \<lambda>k. 1 / 2)
   \<and> (0::real) \<le> 1 / 2 \<and> (1 / 2 :: real) < 1
   \<and> getInstrumentWaveform
        \<lparr>sin_approx = \<lambda>x. Num 0, asin_approx = \<lambda>x. Num 0, exp_approx = \<lambda>x. Num 1\<rparr>
        (Num 6) (Num 10) (Num 1) (\<lambda>k. 1 / 2)
       = (Num 0, \<lambda>k. 1 / 2)
   \<and> Num 9 \<notin> {Num 1, Num 2, Num 3, Num 4, Num 5, Num 6, Num 7, Num 8}
   \<and> getInstrumentWaveform
        \<lparr>sin_approx = \<lambda>x. Num 0, asin_approx = \<lambda>x. Num 0, exp_approx = \<lambda>x. Num 1\<rparr> (Num 9)
       = getInstrumentWaveform
          \<lparr>sin_approx = \<lambda>x. Num 0, asin_approx = \<lambda>x. Num 0, exp_approx = \<lambda>x. Num 1\<rparr> (Num 1)
   \<and> Num 4 \<noteq> Num 6
   \<and> render_sample
        (getInstrumentWaveform
           \<lparr>sin_approx = \<lambda>x. Num 0, asin_approx = \<lambda>x. Num 0, exp_approx = \<lambda>x. Num 1\<rparr> (Num 4))
        \<lparr>note_freq = Num 10, note_noteDuration = Num 2, note_chord = Some [Num 10, Num 10]\<rparr>
        (Num 1) (Num 1) (\<lambda>k. 1 / 2)
       = (Num (4503599627370491 / 4503599627370496), \<lambda>k. 1 / 2)"
proof -
  let ?m = "\<lparr>sin_approx = \<lambda>x. Num 0, asin_approx = \<lambda>x. Num 0, exp_approx = \<lambda>x. Num 1\<rparr>"
  let ?v = "4503599627370491 / 4503599627370496 :: real"
  have p: "fdiv (Num 1) (Num 10) = Num (3602879701896397 / 36028797018963968)"
    using round64_eval [of "- 4" "1 / 10"] by (simp add: fdiv_def rne_def Let_def)
  have h: "Num 1 = Num 1 \<and> (0::real) \<le> 1
      \<and> fdiv (Num 1) (Num 10) = Num (3602879701896397 / 36028797018963968)
      \<and> (0::real) < 3602879701896397 / 36028797018963968"
    using p by simp
  have g: "(0::real) \<le> 1 / 2 \<and> (1 / 2 :: real) < 1"
    by simp
  have n: "Num 9 \<notin> {Num 1, Num 2, Num 3, Num 4, Num 5, Num 6, Num 7, Num 8}" "Num 4 \<noteq> Num 6"
    by simp_all
  have c: "note_chord \<lparr>note_freq = Num 10, note_noteDuration = Num 2,
      note_chord = Some [Num 10, Num 10]\<rparr> = Some [Num 10, Num 10]"
    by simp
  have e: "Math_exp ?m (fmul (fneg (Num 1)) (Num 5)) = Num 1"
    by (simp add: Math_exp_def fmul_def fneg_def round64_neg_numeral)
  have a: "fadd (Num 0) (Num ?v) = Num ?v"
    using round64_eval [of "- 1" ?v] by (simp add: fadd_def rne_def Let_def)
  have b: "fadd (Num ?v) (Num ?v) = Num (2 * ?v)"
    using round64_eval [of 0 "2 * ?v"] by (simp add: fadd_def rne_def Let_def)
  have d: "fdiv (Num (2 * ?v)) (Num 2) = Num ?v"
    using round64_eval [of "- 1" ?v] by (simp add: fdiv_def rne_def Let_def)
  have f: "fmul (Num ?v) (Num 1) = Num ?v"
    using round64_eval [of "- 1" ?v] by (simp add: fmul_def rne_def Let_def)
  have z: "fmul (fsub (fmul (Num (1 / 2)) (Num 2)) (Num 1)) (Num 1) = Num 0"
    by (simp add: fmul_def fsub_def fadd_def fneg_def)
  from waveform_synthesizer_variants [of ?m "Num 10" "Num 1" "\<lambda>k. 1 / 2" "Num 9" "Num 1"]
    waveform_synthesizer_variants [of ?m "Num 10" "Num 1" "\<lambda>k. 1 / 2" "Num 4" "Num 1"]
    h g n c
  show ?thesis
    using sawtooth_10_1 [of ?m] a b d f z e
    by (simp add: frem_def js_trunc_def)
qed

text \<open>
  The claim as stated, that the instruments compute exactly the formulas of the
  specification, fails for the sawtooth at \<open>f = 10\<close> and \<open>t = 1\<close>: the formula
  \<open>2 * (t mod 1 / f) / (1 / f) - 1\<close> is \<open>-1\<close>, and the program returns
  0.9999999999999989, since the period is the double nearest to 0.1, which is above 0.1.
\<close>

theorem waveform_sawtooth_counterexample:
  "getInstrumentWaveform
      \<lparr>sin_approx = \<lambda>x. Num 0, asin_approx = \<lambda>x. Num 0, exp_approx = \<lambda>x. Num 1\<rparr>
      (Num 4) (Num 10) (Num 1) (\<lambda>k. 0)
     = (Num (4503599627370491 / 4503599627370496), \<lambda>k. 0)
   \<and> 2 * ((1::real) - (1 / 10) * of_int \<lfloor>1 / (1 / 10 :: real)\<rfloor>) / (1 / 10) - 1 = - 1"
  by (simp add: sawtooth_10_1)

section \<open>Determinism\<close>

lemma customSamples_rng:
  assumes "instrumentId \<noteq> Num 6"
  shows "map_sum id fst (customSamples m g1 days instrumentId tempo volume) =
     map_sum id fst (customSamples m g2 days instrumentId tempo volume)"
proof -
  have w: "getInstrumentWaveform m instrumentId f t h =
      (fst (getInstrumentWaveform m instrumentId f t g2), h)" for f t h
    using assms by (rule waveform_pure)
  have r: "render_sample (getInstrumentWaveform m instrumentId) n volume t h =
      (fst (render_sample (getInstrumentWaveform m instrumentId) n volume t g2), h)" for n t h
    using w by (rule render_sample_pure)
  let ?run = "\<lambda>g. forEach_err (\<lambda>n st. note_loop (getInstrumentWaveform m instrumentId) n volume
      (Num 44100) (Math_floor (fmul (Num 44100) (note_noteDuration n))) 0 st)
      (map (note_of_day tempo) days) ([], g)"
  have "?run g1 = (case ?run g2 of Inl e \<Rightarrow> Inl e | Inr p \<Rightarrow> Inr (fst p, g1))"
    by (rule forEach_rng) (rule r)
  then have "map_sum id fst (?run g1) = map_sum id fst (?run g2)"
    by (cases "?run g2") simp_all
  then show ?thesis
    by (simp add: customSamples_def Let_def)
qed

lemma entry_samples:
  "generateCustomMusic_alt m g fetchWeeks username instrumentId tempoOpt volumeOpt =
     (let tempo = (case tempoOpt of
                     None \<Rightarrow> Num 120
                   | Some x \<Rightarrow> if x = Num 0 \<or> x = NaN then Num 120 else x);
          volume = (case volumeOpt of None \<Rightarrow> Num 0.5 | Some v \<Rightarrow> v)
      in case fetchWeeks username of
           None \<Rightarrow> Status404
         | Some weeks \<Rightarrow>
             if length weeks = 0 then Status404
             else
               (case map_sum id fst (customSamples m g (concat weeks) instrumentId tempo volume) of
                  Inl e \<Rightarrow> Status500
                | Inr samples \<Rightarrow>
                    (case createWavData samples of
                       Inl e \<Rightarrow> Status500
                     | Inr wavData \<Rightarrow> Transcoded (username @ ''-custom.wav'') wavData False)))"
  by (simp add: generateCustomMusic_alt_def Let_def split: option.split sum.split prod.split)

lemma noise_one_sample:
  "customSamples m g [\<lparr>date = d, contributionCount = 0\<rparr>] (Num 6) (Num 491520) (Num 1) =
     Inr ([fmul (fmul (fsub (fmul (Num (g 0)) (Num 2)) (Num 1)) (Num 1)) (Num 1)], \<lambda>k. g (Suc k))"
proof -
  have h: "\<forall>day\<in>set [\<lparr>date = d, contributionCount = 0\<rparr>].
       day_sample_count (Num 491520) day \<noteq> PosInf"
    "(\<Sum>day\<leftarrow>[\<lparr>date = d, contributionCount = 0\<rparr>].
         indices_below (day_sample_count (Num 491520) day)) \<le> max_array_length"
    by (simp_all add: count_491520 indices_below_def max_array_length_def)
  have c: "indices_below (Math_floor (fmul (Num 44100)
      (note_noteDuration (note_of_day (Num 491520) \<lparr>date = d, contributionCount = 0\<rparr>)))) = Suc 0"
    by (simp add: note_count count_491520 indices_below_def)
  have n: "note_chord (note_of_day (Num 491520) \<lparr>date = d, contributionCount = 0\<rparr>) = None"
    by (simp add: note_of_day_def getChordFromContribution_f64_def js_ge_def js_le_def js_lt_def
        Let_def)
  have e: "Math_exp m (fmul (fneg (fdiv (Num 0) (Num 44100))) (Num 5)) = Num 1"
    by (simp add: Math_exp_def fmul_def fneg_def fdiv_def)
  show ?thesis
    using customSamples_spec_render [OF h, of m g "Num 6" "Num 1"]
    by (simp add: c n e render_sample_def getInstrumentWaveform_def Math_random_def Let_def)
qed

text \<open>
  Claim C9 (determinism). For an instrument other than 6 the waveform neither reads nor
  advances the random source, so two runs on the same days and configuration, whatever
  their random sources, give the same samples or the same error, and the same outcome of
  the entry point. Instrument 6 reads the source: two sources give different samples on
  the same input.
\<close>

theorem rendering_deterministic_except_noise:
  "(instrumentId \<noteq> Num 6 \<longrightarrow>
      (\<forall>f t g g'. getInstrumentWaveform m instrumentId f t g =
                    (fst (getInstrumentWaveform m instrumentId f t g'), g))
      \<and> map_sum id fst (customSamples m g1 days instrumentId tempo volume) =
          map_sum id fst (customSamples m g2 days instrumentId tempo volume)
      \<and> generateCustomMusic_alt m g1 fetchWeeks username instrumentId tempoOpt volumeOpt =
          generateCustomMusic_alt m g2 fetchWeeks username instrumentId tempoOpt volumeOpt)
   \<and> map_sum id fst
        (customSamples m (\<lambda>k. 0) [\<lparr>date = ''2023-01-01'', contributionCount = 0\<rparr>]
           (Num 6) (Num 491520) (Num 1))
       \<noteq> map_sum id fst
            (customSamples m (\<lambda>k. 1 / 2) [\<lparr>date = ''2023-01-01'', contributionCount = 0\<rparr>]
               (Num 6) (Num 491520) (Num 1))"
proof -
  have same: "map_sum id fst (customSamples m g1 ds instrumentId tp vl) =
      map_sum id fst (customSamples m g2 ds instrumentId tp vl)"
    if "instrumentId \<noteq> Num 6" for ds tp vl
    using that by (rule customSamples_rng)
  have entry: "generateCustomMusic_alt m g1 fetchWeeks username instrumentId tempoOpt volumeOpt =
      generateCustomMusic_alt m g2 fetchWeeks username instrumentId tempoOpt volumeOpt"
    if "instrumentId \<noteq> Num 6"
    by (simp only: entry_samples same [OF that])
  have differ: "map_sum id fst
        (customSamples m (\<lambda>k. 0) [\<lparr>date = ''2023-01-01'', contributionCount = 0\<rparr>]
           (Num 6) (Num 491520) (Num 1))
       \<noteq> map_sum id fst
            (customSamples m (\<lambda>k. 1 / 2) [\<lparr>date = ''2023-01-01'', contributionCount = 0\<rparr>]
               (Num 6) (Num 491520) (Num 1))"
    by (simp add: noise_one_sample fmul_def fsub_def fadd_def fneg_def)
  from same entry differ waveform_pure show ?thesis
    by blast
qed

theorem rendering_deterministic_except_noise_witness:
  "Num 3 \<noteq> Num 6
   \<and> map_sum id fst
        (customSamples \<lparr>sin_approx = \<lambda>x. Num 0, asin_approx = \<lambda>x. Num 0, exp_approx = \<lambda>x. Num 1\<rparr>
           (\<lambda>k. 0) [\<lparr>date = ''2023-01-01'', contributionCount = 0\<rparr>] (Num 3) (Num 491520) (Num 1))
       = map_sum id fst
           (customSamples \<lparr>sin_approx = \<lambda>x. Num 0, asin_approx = \<lambda>x. Num 0, exp_approx = \<lambda>x. Num 1\<rparr>
              (\<lambda>k. 1 / 2) [\<lparr>date = ''2023-01-01'', contributionCount = 0\<rparr>] (Num 3) (Num 491520)
              (Num 1))"
proof -
  have "Num 3 \<noteq> Num 6"
    by simp
  with rendering_deterministic_except_noise [of "Num 3"
      "\<lparr>sin_approx = \<lambda>x. Num 0, asin_approx = \<lambda>x. Num 0, exp_approx = \<lambda>x. Num 1\<rparr>" "\<lambda>k. 0"
      "[\<lparr>date = ''2023-01-01'', contributionCount = 0\<rparr>]" "Num 491520" "Num 1" "\<lambda>k. 1 / 2"]
  show ?thesis
    by simp
qed

end
